theory Spec2Isabelle
  imports Complex_Main "HOL-Library.AList" "HOL-Library.Multiset"
begin

section \<open>Floating-point values of a pandas Series\<close>

text \<open>
  A float64 cell of a pandas Series is a finite number, an infinity or NaN. pandas marks
  an undefined entry (a window that is not yet full, a shift before the first row) by
  NaN. A finite value is modelled by the real number it stands for. The result of an
  addition, subtraction, multiplication or division overflows to an infinity when its
  magnitude reaches \<open>2^1024 - 2^970\<close>, the least magnitude that float64 rounds to
  infinity; below that the exact result is kept, so rounding and the sign of zero are
  left out. Division does not raise in numpy: a zero divisor gives an infinity or NaN,
  which is written out in \<open>fdiv\<close>.
\<close>

datatype fval = NaN | NegInf | Fin real | PosInf

definition overflow_threshold :: real where
  "overflow_threshold = 2 ^ 1024 - 2 ^ 970"

definition to_float :: "real \<Rightarrow> fval" where
  "to_float x =
     (if overflow_threshold \<le> x then PosInf
      else if x \<le> - overflow_threshold then NegInf
      else Fin x)"

fun fneg :: "fval \<Rightarrow> fval" where
  "fneg NaN = NaN"
| "fneg NegInf = PosInf"
| "fneg (Fin a) = Fin (- a)"
| "fneg PosInf = NegInf"

fun fadd :: "fval \<Rightarrow> fval \<Rightarrow> fval" where
  "fadd (Fin a) (Fin b) = to_float (a + b)"
| "fadd NaN _ = NaN"
| "fadd _ NaN = NaN"
| "fadd PosInf NegInf = NaN"
| "fadd NegInf PosInf = NaN"
| "fadd PosInf _ = PosInf"
| "fadd _ PosInf = PosInf"
| "fadd NegInf _ = NegInf"
| "fadd _ NegInf = NegInf"

definition fsub :: "fval \<Rightarrow> fval \<Rightarrow> fval" where
  "fsub a b = fadd a (fneg b)"

text \<open>The sign of a value that is not NaN: \<open>-1\<close>, \<open>0\<close> or \<open>1\<close>.\<close>

fun fsgn :: "fval \<Rightarrow> int" where
  "fsgn NaN = 0"
| "fsgn NegInf = - 1"
| "fsgn (Fin a) = (if a < 0 then - 1 else if a = 0 then 0 else 1)"
| "fsgn PosInf = 1"

definition inf_of_sign :: "int \<Rightarrow> fval" where
  "inf_of_sign s = (if s = 0 then NaN else if s < 0 then NegInf else PosInf)"

fun fmul :: "fval \<Rightarrow> fval \<Rightarrow> fval" where
  "fmul (Fin a) (Fin b) = to_float (a * b)"
| "fmul NaN _ = NaN"
| "fmul _ NaN = NaN"
| "fmul a b = inf_of_sign (fsgn a * fsgn b)"

fun fdiv :: "fval \<Rightarrow> fval \<Rightarrow> fval" where
  "fdiv (Fin a) (Fin b) = (if b = 0 then inf_of_sign (fsgn (Fin a)) else to_float (a / b))"
| "fdiv NaN _ = NaN"
| "fdiv _ NaN = NaN"
| "fdiv (Fin a) _ = Fin 0"
| "fdiv a (Fin b) = inf_of_sign (fsgn a * (if b < 0 then - 1 else 1))"
| "fdiv _ _ = NaN"

text \<open>Comparisons: every comparison with NaN is false.\<close>

fun flt :: "fval \<Rightarrow> fval \<Rightarrow> bool" where
  "flt NaN _ = False"
| "flt _ NaN = False"
| "flt (Fin a) (Fin b) = (a < b)"
| "flt _ NegInf = False"
| "flt NegInf _ = True"
| "flt PosInf _ = False"
| "flt _ PosInf = True"

definition fgt :: "fval \<Rightarrow> fval \<Rightarrow> bool" where
  "fgt a b = flt b a"

definition fle :: "fval \<Rightarrow> fval \<Rightarrow> bool" where
  "fle a b = (a \<noteq> NaN \<and> b \<noteq> NaN \<and> \<not> flt b a)"

definition fge :: "fval \<Rightarrow> fval \<Rightarrow> bool" where
  "fge a b = fle b a"

section \<open>Window operations (pandas rolling, expanding, ewm, shift, pct_change)\<close>

text \<open>
  \<open>window w i xs\<close> is the trailing window of \<open>rolling(window=w)\<close> at row \<open>i\<close>: the
  rows \<open>i-w+1 .. i\<close>, cut at row 0. A rolling aggregate is defined at a row when its
  window holds at least \<open>min_periods\<close> observations, and NaN otherwise.
\<close>

definition window :: "nat \<Rightarrow> nat \<Rightarrow> 'a list \<Rightarrow> 'a list" where
  "window w i xs = drop (Suc i - w) (take (Suc i) xs)"

definition rolling :: "nat \<Rightarrow> nat \<Rightarrow> (real list \<Rightarrow> fval) \<Rightarrow> real list \<Rightarrow> fval list" where
  "rolling w min_periods agg xs =
     map (\<lambda>i. let win = window w i xs
               in if min_periods \<le> length win then agg win else NaN)
         [0..<length xs]"

definition expanding :: "nat \<Rightarrow> (real list \<Rightarrow> fval) \<Rightarrow> real list \<Rightarrow> fval list" where
  "expanding min_periods agg xs =
     map (\<lambda>i. let win = take (Suc i) xs
               in if min_periods \<le> length win then agg win else NaN)
         [0..<length xs]"

fun mean :: "real list \<Rightarrow> fval" where
  "mean [] = NaN"
| "mean xs = Fin (sum_list xs / real (length xs))"

fun maxv :: "real list \<Rightarrow> fval" where
  "maxv [] = NaN"
| "maxv (x # xs) = Fin (fold max xs x)"

fun minv :: "real list \<Rightarrow> fval" where
  "minv [] = NaN"
| "minv (x # xs) = Fin (fold min xs x)"

definition shift :: "nat \<Rightarrow> fval list \<Rightarrow> fval list" where
  "shift k xs = map (\<lambda>i. if i < k then NaN else xs ! (i - k)) [0..<length xs]"

definition pct_change :: "nat \<Rightarrow> real list \<Rightarrow> fval list" where
  "pct_change k xs =
     map (\<lambda>(a, b). fsub (fdiv a b) (Fin 1)) (zip (map Fin xs) (shift k (map Fin xs)))"

text \<open>
  \<open>ewm(span=p, adjust=False, min_periods=m).mean()\<close>: the running value starts at the
  first observation and is updated by \<open>(1 - \<alpha>) * y + \<alpha> * x\<close>; an output row is NaN
  until \<open>m\<close> observations have been seen.
\<close>

fun ewm_loop :: "real \<Rightarrow> nat \<Rightarrow> real \<Rightarrow> nat \<Rightarrow> real list \<Rightarrow> fval list" where
  "ewm_loop \<alpha> minp y nobs [] = []"
| "ewm_loop \<alpha> minp y nobs (x # xs) =
     (let y' = (1 - \<alpha>) * y + \<alpha> * x; nobs' = Suc nobs
      in (if minp \<le> nobs' then Fin y' else NaN) # ewm_loop \<alpha> minp y' nobs' xs)"

fun ewm_mean :: "nat \<Rightarrow> nat \<Rightarrow> real list \<Rightarrow> fval list" where
  "ewm_mean spn min_periods [] = []"
| "ewm_mean spn min_periods (x # xs) =
     (let \<alpha> = 2 / (real spn + 1); minp = max min_periods 1
      in (if minp \<le> 1 then Fin x else NaN) # ewm_loop \<alpha> minp x 1 xs)"

section \<open>indicators.py: the indicator functions\<close>

text \<open>
  \<open>calculate_sma\<close> is \<open>rolling(window=period, min_periods=period).mean()\<close> and
  \<open>calculate_ema\<close> is \<open>ewm(span=period, adjust=False, min_periods=period).mean()\<close>.
  The series they are applied to are the price and volume columns of the bars, which
  hold numbers; the periods are those of the configuration, all at least 1.
\<close>

definition calculate_sma :: "real list \<Rightarrow> nat \<Rightarrow> fval list" where
  "calculate_sma data period = rolling period period mean data"

definition calculate_ema :: "real list \<Rightarrow> nat \<Rightarrow> fval list" where
  "calculate_ema data period = ewm_mean period period data"

section \<open>Bars and data frames\<close>

text \<open>
  A calendar date is its ordinal number. A bar is one row of the seven columns the
  fetcher delivers. A DataFrame is these typed columns, held row by row, and the
  columns added later, held by name in the order they were added.
\<close>

type_synonym pydate = nat

record bar =
  symbol :: string
  date :: pydate
  openp :: real
  high :: real
  low :: real
  close :: real
  volume :: real

datatype cell = CFloat fval | CInt int | CBool bool | CStr string | CDate pydate

record frame =
  bars :: "bar list"
  extra :: "(string \<times> cell list) list"

definition DMA_PERIODS :: "nat list" where
  "DMA_PERIODS = [10, 21, 50, 100]"

definition EMA_PERIODS :: "nat list" where
  "EMA_PERIODS = [10, 21, 50, 100]"

definition WEEK_52_DAYS :: nat where
  "WEEK_52_DAYS = 252"

definition astype_int :: "bool list \<Rightarrow> int list" where
  "astype_int bs = map (\<lambda>b. if b then 1 else 0) bs"

definition calculate_t_score :: "frame \<Rightarrow> fval list" where
  "calculate_t_score df =
     (let lookback = 14;
          high_n = rolling lookback lookback maxv (map high (bars df));
          low_n = rolling lookback lookback minv (map low (bars df));
          t_score = map (\<lambda>q. fmul q (Fin 100))
                      (map2 fdiv (map2 fsub (map Fin (map close (bars df))) low_n)
                                 (map (\<lambda>d. fadd d (Fin (1 / 10 ^ 10))) (map2 fsub high_n low_n)))
      in t_score)"

definition calculate_f_score :: "frame \<Rightarrow> int list" where
  "calculate_f_score df =
     (let cl = map close (bars df);
          vol = map volume (bars df);
          score = replicate (length (bars df)) 0;
          ma_50 = rolling 50 50 mean cl;
          score = map2 (+) score (astype_int (map2 fgt (map Fin cl) ma_50));
          price_20d_ago = shift 20 (map Fin cl);
          score = map2 (+) score (astype_int (map2 fgt (map Fin cl) price_20d_ago));
          ma_50_20d_ago = shift 20 ma_50;
          score = map2 (+) score (astype_int (map2 fgt ma_50 ma_50_20d_ago));
          avg_volume = rolling 50 50 mean vol;
          score = map2 (+) score (astype_int (map2 fgt (map Fin vol) avg_volume));
          ma_10 = rolling 10 10 mean cl;
          ma_20 = rolling 20 20 mean cl;
          score = map2 (+) score (astype_int (map2 fgt ma_10 ma_20));
          score = map2 (+) score (astype_int (map2 fgt ma_20 ma_50));
          ma_200 = rolling 200 200 mean cl;
          score = map2 (+) score (astype_int (map2 fgt (map Fin cl) ma_200));
          returns_5d = pct_change 5 cl;
          score = map2 (+) score (astype_int (map (\<lambda>r. fgt r (Fin 0)) returns_5d));
          returns_20d = pct_change 20 cl;
          score = map2 (+) score (astype_int (map (\<lambda>r. fgt r (Fin 0)) returns_20d))
      in score)"

definition calculate_52_week_high :: "frame \<Rightarrow> bool list" where
  "calculate_52_week_high df =
     (let period = WEEK_52_DAYS;
          rolling_max = rolling period 1 maxv (map high (bars df))
      in map2 fge (map Fin (map high (bars df))) rolling_max)"

definition calculate_52_week_low :: "frame \<Rightarrow> bool list" where
  "calculate_52_week_low df =
     (let period = WEEK_52_DAYS;
          rolling_min = rolling period 1 minv (map low (bars df))
      in map2 fle (map Fin (map low (bars df))) rolling_min)"

definition calculate_all_time_high :: "frame \<Rightarrow> bool list" where
  "calculate_all_time_high df =
     (let expanding_max = expanding 1 maxv (map high (bars df))
      in map2 fge (map Fin (map high (bars df))) expanding_max)"

definition calculate_all_time_low :: "frame \<Rightarrow> bool list" where
  "calculate_all_time_low df =
     (let expanding_min = expanding 1 minv (map low (bars df))
      in map2 fle (map Fin (map low (bars df))) expanding_min)"

section \<open>DataFrame objects\<close>

text \<open>
  A DataFrame is a mutable object, so the frames live in a heap and are passed by
  reference (an index into the heap). Every pandas operation of the source that returns
  a DataFrame (\<open>copy\<close>, boolean indexing, \<open>sort_values\<close>, \<open>concat\<close>) allocates a new
  object; only the column assignment \<open>df[name] = column\<close> changes an object in place.
  A Series computed from a frame is a value (a list of cells) and is never shared.
\<close>

datatype error = ValueError | IntegrityError | CardinalityViolation | OperationalError

type_synonym ref = nat
type_synonym heap = "frame list"

definition alloc :: "frame \<Rightarrow> heap \<Rightarrow> ref \<times> heap" where
  "alloc f h = (length h, h @ [f])"

definition df_copy :: "ref \<Rightarrow> heap \<Rightarrow> ref \<times> heap" where
  "df_copy r h = alloc (h ! r) h"

text \<open>Row selection by position: the rows \<open>idx\<close> of every column, in the order of \<open>idx\<close>.\<close>

definition take_rows :: "nat list \<Rightarrow> frame \<Rightarrow> frame" where
  "take_rows idx f =
     \<lparr>bars = map (\<lambda>i. bars f ! i) idx,
      extra = map (\<lambda>(name, col). (name, map (\<lambda>i. col ! i) idx)) (extra f)\<rparr>"

text \<open>\<open>df[df['symbol'] == s]\<close>: the rows whose symbol is \<open>s\<close>, in their order.\<close>

definition select_rows :: "string \<Rightarrow> frame \<Rightarrow> frame" where
  "select_rows s f =
     (let mask = map (\<lambda>b. symbol b = s) (bars f)
      in take_rows (filter (\<lambda>i. mask ! i) [0..<length (bars f)]) f)"

definition select_symbol :: "string \<Rightarrow> ref \<Rightarrow> heap \<Rightarrow> ref \<times> heap" where
  "select_symbol s r h = alloc (select_rows s (h ! r)) h"

text \<open>
  \<open>df.sort_values('date')\<close>: the row positions are sorted by date and the rows taken in
  that order. Rows of equal date are kept in their order here; pandas' default sort
  promises no order for them.
\<close>

definition sort_by_date :: "frame \<Rightarrow> frame" where
  "sort_by_date f = take_rows (sort_key (\<lambda>i. date (bars f ! i)) [0..<length (bars f)]) f"

definition sort_values_date :: "ref \<Rightarrow> heap \<Rightarrow> ref \<times> heap" where
  "sort_values_date r h = alloc (sort_by_date (h ! r)) h"

text \<open>
  \<open>df[name] = column\<close>: an existing column of that name is replaced where it stands, a
  new one is added after the others. The object is changed in place.
\<close>

definition set_column :: "string \<Rightarrow> cell list \<Rightarrow> frame \<Rightarrow> frame" where
  "set_column name col f = f\<lparr>extra := AList.update name col (extra f)\<rparr>"

definition setitem :: "ref \<Rightarrow> string \<Rightarrow> cell list \<Rightarrow> heap \<Rightarrow> heap" where
  "setitem r name col h = h[r := set_column name col (h ! r)]"

text \<open>\<open>Series.unique()\<close>: the distinct values in the order of their first appearance.\<close>

fun unique_from :: "'a list \<Rightarrow> 'a list \<Rightarrow> 'a list" where
  "unique_from seen [] = []"
| "unique_from seen (x # xs) =
     (if x \<in> set seen then unique_from seen xs else x # unique_from (x # seen) xs)"

definition unique :: "'a list \<Rightarrow> 'a list" where
  "unique xs = unique_from [] xs"

text \<open>
  \<open>pd.concat(frames, ignore_index=True)\<close>: the rows of the frames one after the other,
  over the union of their columns; a frame that lacks a column contributes NaN there.
  An empty list of frames raises ValueError.
\<close>

definition column_or_nan :: "string \<Rightarrow> frame \<Rightarrow> cell list" where
  "column_or_nan name f =
     (case map_of (extra f) name of
        Some col \<Rightarrow> col
      | None \<Rightarrow> replicate (length (bars f)) (CFloat NaN))"

definition concat_frames :: "frame list \<Rightarrow> frame" where
  "concat_frames fs =
     \<lparr>bars = concat (map bars fs),
      extra = map (\<lambda>name. (name, concat (map (column_or_nan name) fs)))
                  (unique (concat (map (\<lambda>f. map fst (extra f)) fs)))\<rparr>"

definition pd_concat :: "ref list \<Rightarrow> heap \<Rightarrow> (error + ref) \<times> heap" where
  "pd_concat rs h =
     (if rs = [] then (Inl ValueError, h)
      else (let (r, h) = alloc (concat_frames (map (\<lambda>r. h ! r) rs)) h in (Inr r, h)))"

text \<open>The decimal digits of a number, for the column names \<open>dma_10\<close>, \<open>ema_21\<close>, ...\<close>

fun str_nat :: "nat \<Rightarrow> string" where
  "str_nat n = (if n < 10 then [''0123456789'' ! n]
                else str_nat (n div 10) @ [''0123456789'' ! (n mod 10)])"

declare str_nat.simps [simp del]

section \<open>indicators.py: \<open>add_all_indicators\<close> and \<open>process_multiple_symbols\<close>\<close>

text \<open>
  \<open>add_all_indicators\<close> is modelled for the call \<open>add_all_indicators(df)\<close>, that is with
  \<open>symbol\<close> at its default \<open>None\<close>, which is the only call in the repository. The frame
  handed in is copied, the copy is copied and sorted by date, and the nineteen indicator
  columns are assigned to that sorted frame, which is returned.
\<close>

definition add_all_indicators :: "ref \<Rightarrow> heap \<Rightarrow> ref \<times> heap" where
  "add_all_indicators df h =
     (let (result_df, h) = df_copy df h;
          (tmp, h) = df_copy result_df h;
          (symbol_df, h) = sort_values_date tmp h;
          h = setitem symbol_df ''t_score'' (map CFloat (calculate_t_score (h ! symbol_df))) h;
          h = setitem symbol_df ''f_score'' (map CInt (calculate_f_score (h ! symbol_df))) h;
          h = fold (\<lambda>period h.
                 setitem symbol_df (''dma_'' @ str_nat period)
                   (map CFloat (calculate_sma (map close (bars (h ! symbol_df))) period)) h)
               DMA_PERIODS h;
          h = fold (\<lambda>period h.
                 setitem symbol_df (''ema_'' @ str_nat period)
                   (map CFloat (calculate_ema (map close (bars (h ! symbol_df))) period)) h)
               EMA_PERIODS h;
          h = setitem symbol_df ''is_52_week_high''
                (map CBool (calculate_52_week_high (h ! symbol_df))) h;
          h = setitem symbol_df ''is_52_week_low''
                (map CBool (calculate_52_week_low (h ! symbol_df))) h;
          h = setitem symbol_df ''is_all_time_high''
                (map CBool (calculate_all_time_high (h ! symbol_df))) h;
          h = setitem symbol_df ''is_all_time_low''
                (map CBool (calculate_all_time_low (h ! symbol_df))) h;
          result_df = symbol_df
      in (result_df, h))"

text \<open>The loop over the symbols of \<open>process_multiple_symbols\<close>.\<close>

fun symbols_loop :: "ref \<Rightarrow> string list \<Rightarrow> ref list \<Rightarrow> heap \<Rightarrow> ref list \<times> heap" where
  "symbols_loop df [] all_processed h = (all_processed, h)"
| "symbols_loop df (s # symbols) all_processed h =
     (let (selected, h) = select_symbol s df h;
          (symbol_data, h) = df_copy selected h;
          (symbol_data, h) = sort_values_date symbol_data h;
          (processed, h) = add_all_indicators symbol_data h
      in symbols_loop df symbols (all_processed @ [processed]) h)"

definition process_multiple_symbols :: "ref \<Rightarrow> heap \<Rightarrow> (error + ref) \<times> heap" where
  "process_multiple_symbols df h =
     (let symbols = unique (map symbol (bars (h ! df)));
          (all_processed, h) = symbols_loop df symbols [] h
      in pd_concat all_processed h)"

section \<open>data_fetcher.py\<close>

text \<open>
  \<open>tv\<close> stands for \<open>TvDatafeed.get_hist\<close> followed by the column clean-up of
  \<open>fetch_stock_data\<close>: for a symbol it raises, returns nothing, or returns rows. The
  exchange and the number of bars are arguments of that external call only.
\<close>

definition fetch_stock_data :: "(string \<Rightarrow> error + bar list option) \<Rightarrow> string \<Rightarrow> frame option" where
  "fetch_stock_data tv s =
     (case tv s of
        Inl e \<Rightarrow> None
      | Inr None \<Rightarrow> None
      | Inr (Some rows) \<Rightarrow>
          if rows \<noteq> [] then Some \<lparr>bars = map (\<lambda>b. b\<lparr>symbol := s\<rparr>) rows, extra = []\<rparr>
          else None)"

definition fetch_multiple_stocks :: "(string \<Rightarrow> error + bar list option) \<Rightarrow> string list \<Rightarrow> frame" where
  "fetch_multiple_stocks tv symbols =
     (let all_data = List.map_filter (fetch_stock_data tv) symbols
      in if all_data \<noteq> [] then concat_frames all_data else \<lparr>bars = [], extra = []\<rparr>)"

section \<open>database.py: the table \<open>stock_data\<close>\<close>

text \<open>
  A row of the table gives every column a value or NULL (\<open>None\<close>). The unique
  constraint on \<open>(symbol, date)\<close> makes the table a map from that key to the row.
  \<open>id\<close> is drawn from a sequence, one number for every row proposed for insertion;
  \<open>next_id\<close> is the next number of the sequence.
\<close>

type_synonym pyrecord = "(string \<times> cell) list"
type_synonym dbrow = "string \<Rightarrow> cell option"
type_synonym dbkey = "cell option \<times> cell option"

record db =
  table :: "dbkey \<Rightarrow> dbrow option"
  next_id :: nat

definition stock_data_columns :: "string list" where
  "stock_data_columns =
     [''id'', ''symbol'', ''date'', ''open'', ''high'', ''low'', ''close'', ''volume'',
      ''t_score'', ''f_score'', ''dma_10'', ''dma_21'', ''dma_50'', ''dma_100'',
      ''ema_10'', ''ema_21'', ''ema_50'', ''ema_100'',
      ''is_52_week_high'', ''is_52_week_low'', ''is_all_time_high'', ''is_all_time_low'']"

text \<open>The columns declared \<open>nullable=False\<close>, and the declared defaults.\<close>

definition not_null_columns :: "string list" where
  "not_null_columns = [''symbol'', ''date'', ''open'', ''high'', ''low'', ''close'', ''volume'']"

definition column_default :: "string \<Rightarrow> cell option" where
  "column_default c =
     (if c \<in> set [''is_52_week_high'', ''is_52_week_low'', ''is_all_time_high'', ''is_all_time_low'']
      then Some (CBool False) else None)"

section \<open>data_processor.py: \<open>_store_data\<close> and \<open>process_and_store_stocks\<close>\<close>

text \<open>
  \<open>df.to_dict('records')\<close>: one dictionary per row, from column name to cell. The dates
  of the frames are date objects, so the conversion of string dates in \<open>_store_data\<close>
  changes nothing.
\<close>

definition to_dict_records :: "frame \<Rightarrow> pyrecord list" where
  "to_dict_records df =
     map (\<lambda>i. let b = bars df ! i
               in [(''date'', CDate (date b)), (''symbol'', CStr (symbol b)),
                   (''open'', CFloat (Fin (openp b))), (''high'', CFloat (Fin (high b))),
                   (''low'', CFloat (Fin (low b))), (''close'', CFloat (Fin (close b))),
                   (''volume'', CFloat (Fin (volume b)))]
                  @ map (\<lambda>(name, col). (name, col ! i)) (extra df))
         [0..<length (bars df)]"

text \<open>\<open>update_dict\<close>: the column set on conflict, and the column of the proposed row it takes.\<close>

definition update_dict :: "(string \<times> string) list" where
  "update_dict =
     [(''open'', ''open''), (''high'', ''high''), (''low'', ''low''), (''close'', ''close''),
      (''volume'', ''volume''), (''t_score'', ''t_score''), (''f_score'', ''f_score''),
      (''dma_10'', ''dma_10''), (''dma_21'', ''dma_21''), (''dma_50'', ''dma_50''),
      (''dma_100'', ''dma_100''), (''ema_10'', ''ema_10''), (''ema_21'', ''ema_21''),
      (''ema_50'', ''ema_50''), (''ema_100'', ''ema_100''),
      (''is_52_week_high'', ''is_52_week_high''), (''is_52_week_low'', ''is_52_week_low''),
      (''is_all_time_high'', ''is_all_time_high''), (''is_all_time_low'', ''is_all_time_low'')]"

text \<open>The row proposed for insertion (\<open>excluded\<close> in the conflict clause).\<close>

definition proposed_row :: "pyrecord \<Rightarrow> nat \<Rightarrow> dbrow" where
  "proposed_row r new_id c =
     (if c = ''id'' then Some (CInt (int new_id))
      else if c \<in> set stock_data_columns
        then (case map_of r c of Some v \<Rightarrow> Some v | None \<Rightarrow> column_default c)
      else None)"

definition key_of :: "pyrecord \<Rightarrow> dbkey" where
  "key_of r = (proposed_row r 0 ''symbol'', proposed_row r 0 ''date'')"

definition on_conflict_do_update :: "dbrow \<Rightarrow> dbrow \<Rightarrow> dbrow" where
  "on_conflict_do_update existing excluded c =
     (case map_of update_dict c of Some src \<Rightarrow> excluded src | None \<Rightarrow> existing c)"

definition upsert_row :: "pyrecord \<Rightarrow> db \<Rightarrow> db" where
  "upsert_row r d =
     (let excluded = proposed_row r (next_id d);
          k = key_of r
      in \<lparr>table = (table d)(k \<mapsto> (case table d k of
                                     None \<Rightarrow> excluded
                                   | Some existing \<Rightarrow> on_conflict_do_update existing excluded)),
          next_id = Suc (next_id d)\<rparr>)"

text \<open>
  \<open>session.execute(stmt)\<close> for one batch, as PostgreSQL runs
  \<open>INSERT ... ON CONFLICT (symbol, date) DO UPDATE\<close>. The proposed rows are taken in
  order, and each draws its \<open>id\<close> from the sequence. A NULL in a NOT NULL column is an
  error; a row whose key this statement has already inserted or updated is an error
  (the statement may not affect a row twice); otherwise the row is inserted or updates
  the row of its key. An error comes with the sequence as far as it has been drawn.
\<close>

fun execute_rows :: "pyrecord list \<Rightarrow> dbkey list \<Rightarrow> db \<Rightarrow> (error \<times> nat) + db" where
  "execute_rows [] affected d = Inr d"
| "execute_rows (r # rs) affected d =
     (if \<exists>c \<in> set not_null_columns. proposed_row r (next_id d) c = None
        then Inl (IntegrityError, Suc (next_id d))
      else if key_of r \<in> set affected then Inl (CardinalityViolation, Suc (next_id d))
      else execute_rows rs (key_of r # affected) (upsert_row r d))"

definition execute_upsert :: "pyrecord list \<Rightarrow> db \<Rightarrow> (error \<times> nat) + db" where
  "execute_upsert batch d = execute_rows batch [] d"

text \<open>\<open>records[i:i + batch_size]\<close> for \<open>i\<close> in \<open>range(0, len(records), batch_size)\<close>.\<close>

function batches :: "nat \<Rightarrow> 'a list \<Rightarrow> 'a list list" where
  "batches n xs = (if xs = [] \<or> n = 0 then [] else take n xs # batches n (drop n xs))"
  by pat_completeness auto
termination
  by (relation "measure (\<lambda>(n, xs). length xs)") auto

declare batches.simps [simp del]

text \<open>
  The store is external: besides the errors above, a statement or the commit may fail
  for reasons of its own (connection, server). \<open>execute_fails k\<close> says whether the
  \<open>k\<close>-th statement of the run fails so, \<open>commit_fails\<close> whether the commit does.
\<close>

record faults =
  execute_fails :: "nat \<Rightarrow> bool"
  commit_fails :: bool

text \<open>
  A session holds the table as committed and the state inside its open transaction.
  Statements act on the latter; \<open>commit\<close> makes its table the committed one,
  \<open>rollback\<close> returns to the committed table. The sequence is not part of the
  transaction: the numbers drawn stay drawn after a rollback. After \<open>close\<close> the store
  holds the committed table and the sequence as far as it was drawn.
\<close>

record session =
  committed :: "dbkey \<Rightarrow> dbrow option"
  working :: db

definition get_session :: "db \<Rightarrow> session" where
  "get_session d = \<lparr>committed = table d, working = d\<rparr>"

definition session_commit :: "session \<Rightarrow> session" where
  "session_commit s = s\<lparr>committed := table (working s)\<rparr>"

definition session_rollback :: "session \<Rightarrow> session" where
  "session_rollback s = s\<lparr>working := (working s)\<lparr>table := committed s\<rparr>\<rparr>"

definition session_close :: "session \<Rightarrow> db" where
  "session_close s = \<lparr>table = committed s, next_id = next_id (working s)\<rparr>"

text \<open>
  The loop over the batches. It stops at the first statement that raises, and returns
  the exception with the session as it then is.
\<close>

fun batches_loop ::
    "(nat \<Rightarrow> bool) \<Rightarrow> nat \<Rightarrow> pyrecord list list \<Rightarrow> session \<Rightarrow> error option \<times> session" where
  "batches_loop fails k [] s = (None, s)"
| "batches_loop fails k (batch # rest) s =
     (if fails k then (Some OperationalError, s)
      else (case execute_upsert batch (working s) of
              Inl (e, n) \<Rightarrow> (Some e, s\<lparr>working := (working s)\<lparr>next_id := n\<rparr>\<rparr>)
            | Inr w \<Rightarrow> batches_loop fails (Suc k) rest (s\<lparr>working := w\<rparr>)))"

text \<open>
  \<open>_store_data\<close>: the statements of all batches run in one transaction, committed
  after the last one. An exception of a statement or of the commit is handled by
  \<open>rollback\<close> and raised again; the session is closed in either case.
\<close>

definition store_data :: "faults \<Rightarrow> frame \<Rightarrow> db \<Rightarrow> (error + unit) \<times> db" where
  "store_data flts df d =
     (let session = get_session d;
          records = to_dict_records df;
          batch_size = 1000
      in (case batches_loop (execute_fails flts) 0 (batches batch_size records) session of
            (Some e, session) \<Rightarrow> (Inl e, session_close (session_rollback session))
          | (None, session) \<Rightarrow>
              if commit_fails flts
              then (Inl OperationalError, session_close (session_rollback session))
              else (Inr (), session_close (session_commit session))))"

text \<open>
  \<open>process_and_store_stocks\<close>: the whole body is inside \<open>try ... except Exception\<close>,
  whose handler prints the error and returns \<open>False\<close>.
\<close>

definition process_and_store_stocks ::
    "(string \<Rightarrow> error + bar list option) \<Rightarrow> faults \<Rightarrow> string list \<Rightarrow> db \<Rightarrow> (error + bool) \<times> db" where
  "process_and_store_stocks tv flts symbols d =
     (let raw_data = fetch_multiple_stocks tv symbols
      in if bars raw_data = [] then (Inr False, d)
         else (case process_multiple_symbols 0 [raw_data] of
                 (Inl e, h) \<Rightarrow> (Inr False, d)
               | (Inr processed_data, h) \<Rightarrow>
                   (case store_data flts (h ! processed_data) d of
                      (Inl e, d') \<Rightarrow> (Inr False, d')
                    | (Inr u, d') \<Rightarrow> (Inr True, d'))))"

section \<open>Reference definitions\<close>

text \<open>
  The unadjusted exponential recursion, started at the first value of the series:
  \<open>y[0] = x[0]\<close> and \<open>y[i] = \<alpha> * x[i] + (1 - \<alpha>) * y[i-1]\<close>. It is the reference
  against which \<open>calculate_ema\<close> is compared.
\<close>

fun ema_rec :: "real \<Rightarrow> real list \<Rightarrow> nat \<Rightarrow> real" where
  "ema_rec \<alpha> x 0 = x ! 0"
| "ema_rec \<alpha> x (Suc i) = \<alpha> * x ! Suc i + (1 - \<alpha>) * ema_rec \<alpha> x i"

text \<open>The last record of a list that carries a given key, if any.\<close>

primrec last_with_key :: "dbkey \<Rightarrow> pyrecord list \<Rightarrow> pyrecord option" where
  "last_with_key k [] = None"
| "last_with_key k (a # rs) =
     (case last_with_key k rs of
        Some r \<Rightarrow> Some r
      | None \<Rightarrow> if key_of a = k then Some a else None)"

text \<open>
  The columns that \<open>add_all_indicators\<close> assigns, in the order of assignment, the frame
  with these columns assigned, and the frame that \<open>process_multiple_symbols\<close> builds for
  one symbol. They serve to state what the two functions compute.
\<close>

definition indicator_columns :: "frame \<Rightarrow> (string \<times> cell list) list" where
  "indicator_columns f =
     [(''t_score'', map CFloat (calculate_t_score f)),
      (''f_score'', map CInt (calculate_f_score f)),
      (''dma_10'', map CFloat (calculate_sma (map close (bars f)) 10)),
      (''dma_21'', map CFloat (calculate_sma (map close (bars f)) 21)),
      (''dma_50'', map CFloat (calculate_sma (map close (bars f)) 50)),
      (''dma_100'', map CFloat (calculate_sma (map close (bars f)) 100)),
      (''ema_10'', map CFloat (calculate_ema (map close (bars f)) 10)),
      (''ema_21'', map CFloat (calculate_ema (map close (bars f)) 21)),
      (''ema_50'', map CFloat (calculate_ema (map close (bars f)) 50)),
      (''ema_100'', map CFloat (calculate_ema (map close (bars f)) 100)),
      (''is_52_week_high'', map CBool (calculate_52_week_high f)),
      (''is_52_week_low'', map CBool (calculate_52_week_low f)),
      (''is_all_time_high'', map CBool (calculate_all_time_high f)),
      (''is_all_time_low'', map CBool (calculate_all_time_low f))]"

definition with_indicators :: "frame \<Rightarrow> frame" where
  "with_indicators f = fold (\<lambda>(name, col). set_column name col) (indicator_columns f) f"

definition processed_frame :: "string \<Rightarrow> frame \<Rightarrow> frame" where
  "processed_frame s f = with_indicators (sort_by_date (sort_by_date (select_rows s f)))"

text \<open>The names of the assigned columns, in the order of assignment.\<close>

definition indicator_names :: "string list" where
  "indicator_names =
     [''t_score'', ''f_score'', ''dma_10'', ''dma_21'', ''dma_50'', ''dma_100'',
      ''ema_10'', ''ema_21'', ''ema_50'', ''ema_100'',
      ''is_52_week_high'', ''is_52_week_low'', ''is_all_time_high'', ''is_all_time_low'']"

section \<open>Verification: window operations\<close>

lemma length_rolling [simp]: "length (rolling w m agg xs) = length xs"
  by (simp add: rolling_def)

lemma rolling_nth:
  "i < length xs \<Longrightarrow>
   rolling w m agg xs ! i = (if m \<le> length (window w i xs) then agg (window w i xs) else NaN)"
  by (simp add: rolling_def Let_def)

lemma length_window: "i < length xs \<Longrightarrow> length (window w i xs) = min w (Suc i)"
  by (auto simp: window_def)

lemma window_nth:
  "i < length xs \<Longrightarrow> j < min w (Suc i) \<Longrightarrow> window w i xs ! j = xs ! (Suc i - w + j)"
  by (auto simp: window_def)

lemma mean_nonempty: "xs \<noteq> [] \<Longrightarrow> mean xs = Fin (sum_list xs / real (length xs))"
  by (cases xs) simp_all

lemma sum_list_window:
  fixes xs :: "real list"
  assumes "i < length xs" "w \<le> Suc i"
  shows "sum_list (window w i xs) = (\<Sum>j = Suc i - w..i. xs ! j)"
proof -
  have "sum_list (window w i xs) = (\<Sum>j = 0..<w. window w i xs ! j)"
    using assms by (simp add: sum_list_sum_nth length_window)
  also have "\<dots> = (\<Sum>j = 0..<w. xs ! (Suc i - w + j))"
    using assms by (intro sum.cong) (simp_all add: window_nth)
  also have "\<dots> = (\<Sum>j = Suc i - w..<Suc i - w + w. xs ! j)"
    using sum.shift_bounds_nat_ivl [of "\<lambda>j. xs ! j" 0 "Suc i - w" w] by (simp add: add.commute)
  also have "\<dots> = (\<Sum>j = Suc i - w..i. xs ! j)"
    using assms by (simp add: atLeastLessThanSuc_atLeastAtMost)
  finally show ?thesis .
qed



lemma length_ewm_loop [simp]: "length (ewm_loop \<alpha> m y n xs) = length xs"
  by (induction xs arbitrary: y n) (simp_all add: Let_def)

lemma ewm_loop_nth:
  "pre \<noteq> [] \<Longrightarrow> i < length xs \<Longrightarrow>
   ewm_loop \<alpha> m (ema_rec \<alpha> (pre @ xs) (length pre - 1)) (length pre) xs ! i =
     (if m \<le> length pre + i + 1 then Fin (ema_rec \<alpha> (pre @ xs) (length pre + i)) else NaN)"
proof (induction xs arbitrary: pre i)
  case Nil
  then show ?case by simp
next
  case (Cons x xs)
  obtain k where k: "length pre = Suc k"
    using Cons.prems(1) by (cases pre) auto
  have at: "(pre @ x # xs) ! Suc k = x"
    using k nth_append_length [of pre x xs] by simp
  have step: "(1 - \<alpha>) * ema_rec \<alpha> (pre @ x # xs) k + \<alpha> * x
              = ema_rec \<alpha> (pre @ x # xs) (Suc k)"
    by (simp add: at)
  show ?case
  proof (cases i)
    case 0
    then show ?thesis using k step by (simp add: Let_def del: ema_rec.simps)
  next
    case (Suc j)
    then have j: "j < length xs" using Cons.prems(2) by simp
    have ih: "ewm_loop \<alpha> m (ema_rec \<alpha> ((pre @ [x]) @ xs) (length (pre @ [x]) - 1))
              (length (pre @ [x])) xs ! j
          = (if m \<le> length (pre @ [x]) + j + 1
             then Fin (ema_rec \<alpha> ((pre @ [x]) @ xs) (length (pre @ [x]) + j)) else NaN)"
      by (rule Cons.IH) (simp_all add: j)
    have "ewm_loop \<alpha> m (ema_rec \<alpha> (pre @ x # xs) (length pre - 1)) (length pre) (x # xs) ! i
          = ewm_loop \<alpha> m (ema_rec \<alpha> (pre @ x # xs) (Suc k)) (Suc (Suc k)) xs ! j"
      using Suc k step by (simp add: Let_def del: ema_rec.simps)
    also have "\<dots> = (if m \<le> Suc (Suc k) + j + 1
                       then Fin (ema_rec \<alpha> (pre @ x # xs) (Suc (Suc k) + j)) else NaN)"
      using ih k by (simp del: ema_rec.simps)
    finally show ?thesis using Suc k by (simp del: ema_rec.simps)
  qed
qed

lemma length_calculate_ema [simp]: "length (calculate_ema x p) = length x"
  by (cases x) (simp_all add: calculate_ema_def Let_def)

lemma calculate_ema_nth:
  assumes "0 < p" and "i < length x"
  shows "calculate_ema x p ! i = (if p \<le> Suc i then Fin (ema_rec (2 / (real p + 1)) x i) else NaN)"
proof (cases x)
  case Nil
  then show ?thesis using assms by simp
next
  case (Cons x0 xs)
  show ?thesis
  proof (cases i)
    case 0
    then show ?thesis using Cons assms by (auto simp: calculate_ema_def Let_def)
  next
    case (Suc j)
    then have j: "j < length xs" using assms Cons by simp
    have "ewm_loop (2 / (real p + 1)) p (ema_rec (2 / (real p + 1)) ([x0] @ xs) (length [x0] - 1))
            (length [x0]) xs ! j
          = (if p \<le> length [x0] + j + 1
             then Fin (ema_rec (2 / (real p + 1)) ([x0] @ xs) (length [x0] + j)) else NaN)"
      by (rule ewm_loop_nth) (simp_all add: j)
    then have "ewm_loop (2 / (real p + 1)) p x0 (Suc 0) xs ! j
          = (if p \<le> Suc (Suc j) then Fin (ema_rec (2 / (real p + 1)) (x0 # xs) (Suc j)) else NaN)"
      by simp
    moreover have "max p 1 = p" using assms by simp
    ultimately show ?thesis
      using Cons Suc by (simp add: calculate_ema_def Let_def del: ema_rec.simps)
  qed
qed

text \<open>
  C1 (as amended). For a period \<open>p > 0\<close> (every configured EMA period is) and a row
  \<open>i\<close> of the series, \<open>calculate_ema\<close> is NaN (undefined) at every row \<open>i < p - 1\<close>;
  at every row \<open>i \<ge> p - 1\<close>, the row \<open>p - 1\<close> included, it is the value of the unadjusted
  recursion started at \<open>x[0]\<close>, with \<open>\<alpha> = 2 / (p + 1)\<close>; and at every row \<open>i > p - 1\<close>
  it equals \<open>\<alpha> * x[i] + (1 - \<alpha>) * ema[i-1]\<close>. \<open>min_periods\<close> only hides the first
  \<open>p - 1\<close> rows: it does not reseed the recursion.
\<close>

theorem ema_unadjusted_recursion:
  assumes "0 < p" and "i < length x"
  shows "(i < p - 1 \<longrightarrow> calculate_ema x p ! i = NaN)
       \<and> (p - 1 \<le> i \<longrightarrow> calculate_ema x p ! i = Fin (ema_rec (2 / (real p + 1)) x i))
       \<and> (p - 1 < i \<longrightarrow>
            (\<exists>u v. calculate_ema x p ! (i - 1) = Fin u \<and> calculate_ema x p ! i = Fin v
                   \<and> v = 2 / (real p + 1) * x ! i + (1 - 2 / (real p + 1)) * u))"
proof (intro conjI impI)
  assume "i < p - 1"
  then have "\<not> p \<le> Suc i" by simp
  then show "calculate_ema x p ! i = NaN"
    using assms by (simp add: calculate_ema_nth)
next
  assume "p - 1 \<le> i"
  then have "p \<le> Suc i" by simp
  then show "calculate_ema x p ! i = Fin (ema_rec (2 / (real p + 1)) x i)"
    using assms by (simp add: calculate_ema_nth)
next
  assume a: "p - 1 < i"
  then obtain j where j: "i = Suc j" by (cases i) auto
  have pj: "p \<le> Suc j" using a j by simp
  have "calculate_ema x p ! j = Fin (ema_rec (2 / (real p + 1)) x j)"
    using assms j pj by (simp add: calculate_ema_nth)
  moreover have "calculate_ema x p ! i = Fin (ema_rec (2 / (real p + 1)) x i)"
    using assms j pj by (simp add: calculate_ema_nth)
  ultimately show "\<exists>u v. calculate_ema x p ! (i - 1) = Fin u \<and> calculate_ema x p ! i = Fin v
                   \<and> v = 2 / (real p + 1) * x ! i + (1 - 2 / (real p + 1)) * u"
    using j by simp
qed

theorem ema_unadjusted_recursion_witness:
  "0 < (3::nat) \<and> (3::nat) < length [1, 2, 3, 4, 5 :: real]
   \<and> calculate_ema [1, 2, 3, 4, 5] 3 ! 3 = Fin (25 / 8)
   \<and> calculate_ema [1, 2, 3, 4, 5] 3 ! 2 = Fin (9 / 4)
   \<and> calculate_ema [1, 2, 3, 4, 5] 3 ! 1 = NaN"
  using ema_unadjusted_recursion [of 3 3 "[1, 2, 3, 4, 5]"]
        ema_unadjusted_recursion [of 3 2 "[1, 2, 3, 4, 5]"]
        ema_unadjusted_recursion [of 3 1 "[1, 2, 3, 4, 5]"]
  by (simp add: eval_nat_numeral)

text \<open>
  C1 as stated fails at the seed: for nine zeros followed by 11 and period 10, the
  value at row 9 is \<open>\<alpha> * 11 = 2\<close>, while the mean of the first ten values is \<open>11 / 10\<close>.
\<close>

theorem ema_seed_counterexample:
  "calculate_ema [0, 0, 0, 0, 0, 0, 0, 0, 0, 11] 10 ! (10 - 1)
     \<noteq> Fin (sum_list (take 10 [0, 0, 0, 0, 0, 0, 0, 0, 0, 11]) / real 10)"
  by code_simp

section \<open>Verification: T-Score and F-Score\<close>

lemma length_window_full: "i < length xs \<Longrightarrow> w \<le> Suc i \<Longrightarrow> length (window w i xs) = w"
  by (simp add: length_window)

lemma window_last_mem: "i < length xs \<Longrightarrow> 0 < w \<Longrightarrow> xs ! i \<in> set (window w i xs)"
proof -
  assume a: "i < length xs" "0 < w"
  let ?ys = "take (Suc i) xs"
  have len: "length ?ys = Suc i" using a by simp
  have "drop (Suc i - w) ?ys ! (i - (Suc i - w)) = ?ys ! (Suc i - w + (i - (Suc i - w)))"
    using a len by (intro nth_drop) simp
  also have "\<dots> = xs ! i" using a by simp
  finally have "drop (Suc i - w) ?ys ! (i - (Suc i - w)) = xs ! i" .
  moreover have "i - (Suc i - w) < length (drop (Suc i - w) ?ys)"
    using a len by simp
  ultimately show ?thesis
    unfolding window_def by (metis nth_mem)
qed

lemma set_window_subset: "set (window w i xs) \<subseteq> set xs"
  unfolding window_def by (meson set_drop_subset set_take_subset subset_trans)

lemma maxv_ge: "x \<in> set xs \<Longrightarrow> \<exists>m. maxv xs = Fin m \<and> x \<le> m \<and> m \<in> set xs"
proof (cases xs)
  case Nil
  then show "x \<in> set xs \<Longrightarrow> ?thesis" by simp
next
  case (Cons y ys)
  assume "x \<in> set xs"
  have "fold max ys y = Max (set (y # ys))"
    by (rule Max.set_eq_fold [symmetric])
  then show ?thesis
    using Cons \<open>x \<in> set xs\<close> by (metis List.finite_set Max_ge Max_in empty_iff maxv.simps(2))
qed

lemma minv_le: "x \<in> set xs \<Longrightarrow> \<exists>m. minv xs = Fin m \<and> m \<le> x \<and> m \<in> set xs"
proof (cases xs)
  case Nil
  then show "x \<in> set xs \<Longrightarrow> ?thesis" by simp
next
  case (Cons y ys)
  assume "x \<in> set xs"
  have "fold min ys y = Min (set (y # ys))"
    by (rule Min.set_eq_fold [symmetric])
  then show ?thesis
    using Cons \<open>x \<in> set xs\<close> by (metis List.finite_set Min_le Min_in empty_iff minv.simps(2))
qed

lemma calculate_t_score_nth:
  "i < length (bars df) \<Longrightarrow>
   calculate_t_score df ! i =
     fmul (fdiv (fsub (Fin (close (bars df ! i))) (rolling 14 14 minv (map low (bars df)) ! i))
                (fadd (fsub (rolling 14 14 maxv (map high (bars df)) ! i)
                            (rolling 14 14 minv (map low (bars df)) ! i))
                      (Fin (1 / 10 ^ 10))))
          (Fin 100)"
  by (simp add: calculate_t_score_def Let_def)

lemma length_calculate_t_score [simp]: "length (calculate_t_score df) = length (bars df)"
  by (simp add: calculate_t_score_def Let_def)

lemma overflow_threshold_large: "101 < overflow_threshold"
  by (simp add: overflow_threshold_def)

lemma to_float_finite:
  "- overflow_threshold < x \<Longrightarrow> x < overflow_threshold \<Longrightarrow> to_float x = Fin x"
  by (simp add: to_float_def)

lemma to_float_small: "0 \<le> x \<Longrightarrow> x < overflow_threshold \<Longrightarrow> to_float x = Fin x"
  using overflow_threshold_large by (intro to_float_finite) simp_all

text \<open>
  C4 (as amended). For bars with \<open>low \<le> close \<le> high\<close> at every row whose range does
  not overflow (\<open>high - low + 1e-10\<close>, for the high and the low of any two rows, stays
  below the overflow threshold of float64): \<open>calculate_t_score\<close> is NaN (undefined) at
  each of the first 13 rows; at every row \<open>i \<ge> 13\<close> the 14-day maximum and minimum are
  finite, the divisor \<open>high14max - low14min + 1e-10\<close> is not zero (also when the range is
  flat), the T-Score is the finite value of the formula, and it lies in \<open>[0, 100]\<close>
  whenever \<open>high14max > low14min\<close>.
\<close>

theorem t_score_defined_and_bounded:
  assumes ord: "\<forall>b \<in> set (bars df). low b \<le> close b \<and> close b \<le> high b"
    and rng: "\<forall>b \<in> set (bars df). \<forall>b' \<in> set (bars df).
                high b - low b' + 1 / 10 ^ 10 < overflow_threshold"
    and i: "i < length (bars df)"
  shows "(i < 13 \<longrightarrow> calculate_t_score df ! i = NaN)
       \<and> (13 \<le> i \<longrightarrow>
            (\<exists>hmax lmin t.
                rolling 14 14 maxv (map high (bars df)) ! i = Fin hmax
              \<and> rolling 14 14 minv (map low (bars df)) ! i = Fin lmin
              \<and> hmax - lmin + 1 / 10 ^ 10 \<noteq> 0
              \<and> calculate_t_score df ! i = Fin t
              \<and> t = (close (bars df ! i) - lmin) / (hmax - lmin + 1 / 10 ^ 10) * 100
              \<and> (lmin < hmax \<longrightarrow> 0 \<le> t \<and> t \<le> 100)))"
proof (intro conjI impI)
  assume "i < 13"
  then have "\<not> (14::nat) \<le> min 14 (Suc i)" by simp
  then have "rolling 14 14 minv (map low (bars df)) ! i = NaN"
    using i by (simp add: rolling_nth length_window)
  then show "calculate_t_score df ! i = NaN"
    using i by (simp add: calculate_t_score_nth fsub_def)
next
  assume ge: "13 \<le> i"
  let ?hs = "map high (bars df)" and ?ls = "map low (bars df)"
  let ?b = "bars df ! i"
  have full: "(14::nat) \<le> Suc i" using ge by simp
  have bmem: "?b \<in> set (bars df)" using i by simp
  have hi_mem: "high ?b \<in> set (window 14 i ?hs)"
    using window_last_mem [of i ?hs 14] i by simp
  have lo_mem: "low ?b \<in> set (window 14 i ?ls)"
    using window_last_mem [of i ?ls 14] i by simp
  obtain hmax where hmax: "maxv (window 14 i ?hs) = Fin hmax" "high ?b \<le> hmax"
      "hmax \<in> set (window 14 i ?hs)"
    using maxv_ge [OF hi_mem] by blast
  obtain lmin where lmin: "minv (window 14 i ?ls) = Fin lmin" "lmin \<le> low ?b"
      "lmin \<in> set (window 14 i ?ls)"
    using minv_le [OF lo_mem] by blast
  obtain b1 where b1: "b1 \<in> set (bars df)" "hmax = high b1"
    using hmax(3) set_window_subset [of 14 i ?hs] by auto
  obtain b2 where b2: "b2 \<in> set (bars df)" "lmin = low b2"
    using lmin(3) set_window_subset [of 14 i ?ls] by auto
  have rh: "rolling 14 14 maxv ?hs ! i = Fin hmax"
    using i full hmax by (simp add: rolling_nth length_window)
  have rl: "rolling 14 14 minv ?ls ! i = Fin lmin"
    using i full lmin by (simp add: rolling_nth length_window)
  have chain: "lmin \<le> close ?b" "close ?b \<le> hmax"
    using ord bmem hmax(2) lmin(2) by force+
  define den where "den = hmax - lmin + 1 / 10 ^ 10"
  have den_pos: "0 < den" using chain by (simp add: den_def)
  have den_thr: "den < overflow_threshold"
    using rng b1 b2 unfolding den_def by blast
  have num: "0 \<le> close ?b - lmin" "close ?b - lmin \<le> den"
    using chain by (simp_all add: den_def)
  define r where "r = (close ?b - lmin) / den"
  define t where "t = r * 100"
  have r0: "0 \<le> r" using num den_pos by (simp add: r_def)
  have r1: "r \<le> 1" using num den_pos by (simp add: r_def)
  have t0: "0 \<le> t" using r0 by (simp add: t_def)
  have t100: "t \<le> 100" using r1 by (simp add: t_def)
  have n1: "fsub (Fin (close ?b)) (Fin lmin) = Fin (close ?b - lmin)"
    using num den_thr by (simp add: fsub_def to_float_small)
  have n2: "fsub (Fin hmax) (Fin lmin) = Fin (hmax - lmin)"
    using chain den_thr by (simp add: fsub_def to_float_small den_def)
  have n3: "fadd (Fin (hmax - lmin)) (Fin (1 / 10 ^ 10)) = Fin den"
    using den_pos den_thr by (simp add: to_float_small den_def)
  have rt: "to_float r = Fin r"
    using r0 r1 overflow_threshold_large by (intro to_float_small) linarith+
  have tt: "to_float t = Fin t"
    using t0 t100 overflow_threshold_large by (intro to_float_small) linarith+
  have n4: "fdiv (Fin (close ?b - lmin)) (Fin den) = Fin r"
    using den_pos rt by (simp add: r_def)
  have n5: "fmul (Fin r) (Fin 100) = Fin t"
    using tt by (simp add: t_def)
  have ts: "calculate_t_score df ! i = Fin t"
    unfolding calculate_t_score_nth [OF i] rh rl n1 n2 n3 n4 n5 ..
  show "\<exists>hmax lmin t.
          rolling 14 14 maxv ?hs ! i = Fin hmax
        \<and> rolling 14 14 minv ?ls ! i = Fin lmin
        \<and> hmax - lmin + 1 / 10 ^ 10 \<noteq> 0
        \<and> calculate_t_score df ! i = Fin t
        \<and> t = (close (bars df ! i) - lmin) / (hmax - lmin + 1 / 10 ^ 10) * 100
        \<and> (lmin < hmax \<longrightarrow> 0 \<le> t \<and> t \<le> 100)"
  proof (intro exI conjI impI)
    show "rolling 14 14 maxv ?hs ! i = Fin hmax" by (rule rh)
    show "rolling 14 14 minv ?ls ! i = Fin lmin" by (rule rl)
    show "hmax - lmin + 1 / 10 ^ 10 \<noteq> 0" using den_pos by (simp add: den_def)
    show "calculate_t_score df ! i = Fin t" by (rule ts)
    show "t = (close (bars df ! i) - lmin) / (hmax - lmin + 1 / 10 ^ 10) * 100"
      by (simp add: t_def r_def den_def)
    show "0 \<le> t" by (rule t0)
    show "t \<le> 100" by (rule t100)
  qed
qed

theorem t_score_defined_and_bounded_witness:
  "(13::nat) < length (bars \<lparr>bars = replicate 14 \<lparr>symbol = ''X'', date = 1, openp = 1, high = 2,
                                               low = 1, close = 3 / 2, volume = 10\<rparr>, extra = []\<rparr>)
   \<and> (\<exists>t. calculate_t_score \<lparr>bars = replicate 14 \<lparr>symbol = ''X'', date = 1, openp = 1, high = 2,
                                               low = 1, close = 3 / 2, volume = 10\<rparr>, extra = []\<rparr> ! 13 = Fin t
          \<and> 0 \<le> t \<and> t \<le> 100)
   \<and> calculate_t_score \<lparr>bars = replicate 14 \<lparr>symbol = ''X'', date = 1, openp = 1, high = 2,
                                               low = 1, close = 3 / 2, volume = 10\<rparr>, extra = []\<rparr> ! 12 = NaN"
proof -
  let ?df = "\<lparr>bars = replicate 14 \<lparr>symbol = ''X'', date = 1, openp = 1, high = 2, low = 1,
                                      close = 3 / 2, volume = 10\<rparr>, extra = []\<rparr>"
  have ord: "\<forall>b \<in> set (bars ?df). low b \<le> close b \<and> close b \<le> high b" by simp
  have rng: "\<forall>b \<in> set (bars ?df). \<forall>b' \<in> set (bars ?df).
                high b - low b' + 1 / 10 ^ 10 < overflow_threshold"
    using overflow_threshold_large by simp
  have len: "(13::nat) < length (bars ?df)" by simp
  have len': "(12::nat) < length (bars ?df)" by simp
  have hi: "rolling 14 14 maxv (map high (bars ?df)) ! 13 = Fin 2" by code_simp
  have lo: "rolling 14 14 minv (map low (bars ?df)) ! 13 = Fin 1" by code_simp
  from t_score_defined_and_bounded [OF ord rng len] obtain hmax lmin t where
    h: "rolling 14 14 maxv (map high (bars ?df)) ! 13 = Fin hmax"
       "rolling 14 14 minv (map low (bars ?df)) ! 13 = Fin lmin"
       "calculate_t_score ?df ! 13 = Fin t" "lmin < hmax \<longrightarrow> 0 \<le> t \<and> t \<le> 100"
    by auto
  have "lmin < hmax" using h(1,2) hi lo by simp
  then have a: "\<exists>t. calculate_t_score ?df ! 13 = Fin t \<and> 0 \<le> t \<and> t \<le> 100"
    using h(3,4) by blast
  have b: "calculate_t_score ?df ! 12 = NaN"
    using t_score_defined_and_bounded [OF ord rng len'] by simp
  show ?thesis using len a b by (intro conjI)
qed

lemma t_score_overflow:
  assumes bs: "bars df = replicate 14 b"
    and o1: "overflow_threshold \<le> high b - low b"
    and o2: "overflow_threshold \<le> close b - low b"
  shows "calculate_t_score df ! 13 = NaN"
proof -
  have i: "(13::nat) < length (bars df)" by (simp add: bs)
  have wh: "window 14 13 (map high (bars df)) = replicate 14 (high b)"
    by (simp add: window_def bs)
  have wl: "window 14 13 (map low (bars df)) = replicate 14 (low b)"
    by (simp add: window_def bs)
  have "high b \<in> set (replicate 14 (high b))" by simp
  from maxv_ge [OF this] have mx: "maxv (replicate 14 (high b)) = Fin (high b)" by auto
  have "low b \<in> set (replicate 14 (low b))" by simp
  from minv_le [OF this] have mn: "minv (replicate 14 (low b)) = Fin (low b)" by auto
  have rh: "rolling 14 14 maxv (map high (bars df)) ! 13 = Fin (high b)"
    using i by (simp add: rolling_nth wh mx)
  have rl: "rolling 14 14 minv (map low (bars df)) ! 13 = Fin (low b)"
    using i by (simp add: rolling_nth wl mn)
  have c: "close (bars df ! 13) = close b" by (simp add: bs)
  have n1: "fsub (Fin (close b)) (Fin (low b)) = PosInf"
    using o2 by (simp add: fsub_def to_float_def)
  have n2: "fsub (Fin (high b)) (Fin (low b)) = PosInf"
    using o1 by (simp add: fsub_def to_float_def)
  show ?thesis
    unfolding calculate_t_score_nth [OF i] rh rl c n1 n2 by simp
qed

text \<open>
  C4 as stated fails where the range overflows: for fourteen bars with
  \<open>high = close = 2^1023\<close> and \<open>low = -2^1023\<close> (so \<open>low \<le> close \<le> high\<close>), the
  differences \<open>close - low14min\<close> and \<open>high14max - low14min\<close> are both infinite in
  float64, and the T-Score at row 13 is \<open>inf / inf\<close>, that is NaN.
\<close>

theorem t_score_overflow_counterexample:
  "low \<lparr>symbol = ''X'', date = 1, openp = 0, high = 2 ^ 1023,
                          low = - (2 ^ 1023), close = 2 ^ 1023, volume = 10\<rparr>
     \<le> close \<lparr>symbol = ''X'', date = 1, openp = 0, high = 2 ^ 1023,
                          low = - (2 ^ 1023), close = 2 ^ 1023, volume = 10\<rparr>
   \<and> close \<lparr>symbol = ''X'', date = 1, openp = 0, high = 2 ^ 1023,
                          low = - (2 ^ 1023), close = 2 ^ 1023, volume = 10\<rparr>
     \<le> high \<lparr>symbol = ''X'', date = 1, openp = 0, high = 2 ^ 1023,
                          low = - (2 ^ 1023), close = 2 ^ 1023, volume = 10\<rparr>
   \<and> (13::nat) < length (bars \<lparr>bars = replicate 14 \<lparr>symbol = ''X'', date = 1, openp = 0, high = 2 ^ 1023,
                          low = - (2 ^ 1023), close = 2 ^ 1023, volume = 10\<rparr>,
                                extra = []\<rparr>)
   \<and> calculate_t_score \<lparr>bars = replicate 14 \<lparr>symbol = ''X'', date = 1, openp = 0, high = 2 ^ 1023,
                          low = - (2 ^ 1023), close = 2 ^ 1023, volume = 10\<rparr>,
                          extra = []\<rparr> ! 13 = NaN"
proof -
  let ?b = "\<lparr>symbol = ''X'', date = 1, openp = 0, high = 2 ^ 1023,
                          low = - (2 ^ 1023), close = 2 ^ 1023, volume = 10\<rparr>"
  have o: "overflow_threshold \<le> high ?b - low ?b" "overflow_threshold \<le> close ?b - low ?b"
    by (simp_all add: overflow_threshold_def)
  have "calculate_t_score \<lparr>bars = replicate 14 ?b, extra = []\<rparr> ! 13 = NaN"
    by (rule t_score_overflow [OF _ o]) simp
  then show ?thesis by simp
qed

lemma length_shift [simp]: "length (shift k xs) = length xs"
  by (simp add: shift_def)

lemma length_pct_change [simp]: "length (pct_change k xs) = length xs"
  by (simp add: pct_change_def)

lemma length_astype_int [simp]: "length (astype_int bs) = length bs"
  by (simp add: astype_int_def)

lemma astype_int_nth: "i < length bs \<Longrightarrow> astype_int bs ! i = (if bs ! i then 1 else 0)"
  by (simp add: astype_int_def)

lemma fgt_NaN [simp]: "\<not> fgt NaN b" "\<not> fgt a NaN"
  by (cases b; simp add: fgt_def) (cases a; simp add: fgt_def)

lemma length_calculate_f_score [simp]: "length (calculate_f_score df) = length (bars df)"
  by (simp add: calculate_f_score_def Let_def)

lemma calculate_f_score_nth:
  assumes "i < length (bars df)"
  shows "calculate_f_score df ! i =
     (\<Sum>(a, b) \<leftarrow>
        [(Fin (close (bars df ! i)), rolling 50 50 mean (map close (bars df)) ! i),
         (Fin (close (bars df ! i)), shift 20 (map Fin (map close (bars df))) ! i),
         (rolling 50 50 mean (map close (bars df)) ! i,
            shift 20 (rolling 50 50 mean (map close (bars df))) ! i),
         (Fin (volume (bars df ! i)), rolling 50 50 mean (map volume (bars df)) ! i),
         (rolling 10 10 mean (map close (bars df)) ! i, rolling 20 20 mean (map close (bars df)) ! i),
         (rolling 20 20 mean (map close (bars df)) ! i, rolling 50 50 mean (map close (bars df)) ! i),
         (Fin (close (bars df ! i)), rolling 200 200 mean (map close (bars df)) ! i),
         (pct_change 5 (map close (bars df)) ! i, Fin 0),
         (pct_change 20 (map close (bars df)) ! i, Fin 0)].
        if fgt a b then 1 else 0)"
  using assms by (simp add: calculate_f_score_def Let_def astype_int_nth)


lemma sum_flags_bounds:
  "0 \<le> (\<Sum>x \<leftarrow> xs. if P x then 1 else 0 :: int)
   \<and> (\<Sum>x \<leftarrow> xs. if P x then 1 else 0 :: int) \<le> int (length xs)"
  by (induction xs) auto

text \<open>
  C3. At every row \<open>i\<close> the F-Score is an integer (the column has one entry per row),
  it is the sum of nine flags, each 0 or 1, one per comparison of the source, a flag
  whose comparison has a NaN (undefined) operand at that row is 0, and the score lies
  in \<open>0..9\<close>.
\<close>

theorem f_score_sum_of_nine_flags:
  assumes "i < length (bars df)"
  shows "let cl = map close (bars df);
             vol = map volume (bars df);
             ma_10 = rolling 10 10 mean cl;
             ma_20 = rolling 20 20 mean cl;
             ma_50 = rolling 50 50 mean cl;
             ma_200 = rolling 200 200 mean cl;
             components =
               [(Fin (cl ! i), ma_50 ! i),
                (Fin (cl ! i), shift 20 (map Fin cl) ! i),
                (ma_50 ! i, shift 20 ma_50 ! i),
                (Fin (vol ! i), rolling 50 50 mean vol ! i),
                (ma_10 ! i, ma_20 ! i),
                (ma_20 ! i, ma_50 ! i),
                (Fin (cl ! i), ma_200 ! i),
                (pct_change 5 cl ! i, Fin 0),
                (pct_change 20 cl ! i, Fin 0)]
         in length (calculate_f_score df) = length (bars df)
          \<and> calculate_f_score df ! i = (\<Sum>(a, b) \<leftarrow> components. if fgt a b then 1 else 0)
          \<and> (\<forall>(a, b) \<in> set components.
                (a = NaN \<or> b = NaN) \<longrightarrow> (if fgt a b then 1 else 0) = (0::int))
          \<and> 0 \<le> calculate_f_score df ! i \<and> calculate_f_score df ! i \<le> 9"
proof -
  let ?comps = "[(Fin (close (bars df ! i)), rolling 50 50 mean (map close (bars df)) ! i),
         (Fin (close (bars df ! i)), shift 20 (map Fin (map close (bars df))) ! i),
         (rolling 50 50 mean (map close (bars df)) ! i,
            shift 20 (rolling 50 50 mean (map close (bars df))) ! i),
         (Fin (volume (bars df ! i)), rolling 50 50 mean (map volume (bars df)) ! i),
         (rolling 10 10 mean (map close (bars df)) ! i, rolling 20 20 mean (map close (bars df)) ! i),
         (rolling 20 20 mean (map close (bars df)) ! i, rolling 50 50 mean (map close (bars df)) ! i),
         (Fin (close (bars df ! i)), rolling 200 200 mean (map close (bars df)) ! i),
         (pct_change 5 (map close (bars df)) ! i, Fin 0),
         (pct_change 20 (map close (bars df)) ! i, Fin 0)]"
  have eq: "calculate_f_score df ! i = (\<Sum>(a, b) \<leftarrow> ?comps. if fgt a b then 1 else 0)"
    by (rule calculate_f_score_nth [OF assms])
  have nan: "\<forall>(a, b) \<in> set ?comps. (a = NaN \<or> b = NaN) \<longrightarrow> (if fgt a b then 1 else 0) = (0::int)"
    by (auto simp del: set_simps)
  have "0 \<le> (\<Sum>q \<leftarrow> ?comps. if (\<lambda>(a, b). fgt a b) q then 1 else 0 :: int)
      \<and> (\<Sum>q \<leftarrow> ?comps. if (\<lambda>(a, b). fgt a b) q then 1 else 0 :: int) \<le> int (length ?comps)"
    by (rule sum_flags_bounds)
  moreover have "(\<Sum>q \<leftarrow> ?comps. if (\<lambda>(a, b). fgt a b) q then 1 else 0 :: int)
      = (\<Sum>(a, b) \<leftarrow> ?comps. if fgt a b then 1 else 0)"
    by (rule arg_cong [where f = sum_list]) (rule map_cong, simp, simp add: case_prod_beta)
  ultimately have bnd: "0 \<le> calculate_f_score df ! i \<and> calculate_f_score df ! i \<le> 9"
    unfolding eq by simp
  have cl: "map close (bars df) ! i = close (bars df ! i)"
          "map volume (bars df) ! i = volume (bars df ! i)"
    using assms by simp_all
  show ?thesis
    unfolding Let_def cl using eq nan bnd by (simp only: length_calculate_f_score simp_thms)
qed

theorem f_score_sum_of_nine_flags_witness:
  "(5::nat) < length (bars \<lparr>bars = map (\<lambda>k. \<lparr>symbol = ''X'', date = k, openp = 1, high = 2, low = 1,
                                             close = 1 + real k, volume = 10\<rparr>) [0..<6], extra = []\<rparr>)
   \<and> calculate_f_score \<lparr>bars = map (\<lambda>k. \<lparr>symbol = ''X'', date = k, openp = 1, high = 2, low = 1,
                                             close = 1 + real k, volume = 10\<rparr>) [0..<6], extra = []\<rparr> ! 5 = 1
   \<and> 0 \<le> calculate_f_score \<lparr>bars = map (\<lambda>k. \<lparr>symbol = ''X'', date = k, openp = 1, high = 2, low = 1,
                                             close = 1 + real k, volume = 10\<rparr>) [0..<6], extra = []\<rparr> ! 5"
proof -
  let ?df = "\<lparr>bars = map (\<lambda>k. \<lparr>symbol = ''X'', date = k, openp = 1, high = 2, low = 1,
                                             close = 1 + real k, volume = 10\<rparr>) [0..<6], extra = []\<rparr>"
  have len: "(5::nat) < length (bars ?df)" by simp
  have v: "calculate_f_score ?df ! 5 = 1"
    by (simp add: calculate_f_score_nth rolling_nth length_window shift_def pct_change_def
          fsub_def fgt_def to_float_def overflow_threshold_def upt_rec)
  from f_score_sum_of_nine_flags [OF len] have "0 \<le> calculate_f_score ?df ! 5"
    unfolding Let_def by blast
  with len v show ?thesis by blast
qed

section \<open>Verification: the upsert\<close>

lemma update_dict_src_not_id: "map_of update_dict c = Some src \<Longrightarrow> src \<noteq> ''id''"
  by (drule map_of_SomeD) (auto simp: update_dict_def)

lemma proposed_row_id_free: "c \<noteq> ''id'' \<Longrightarrow> proposed_row r n c = proposed_row r m c"
  by (simp add: proposed_row_def)

lemma ocu_proposed_any_id:
  "on_conflict_do_update ex (proposed_row r n) = on_conflict_do_update ex (proposed_row r 0)"
proof
  fix c
  show "on_conflict_do_update ex (proposed_row r n) c = on_conflict_do_update ex (proposed_row r 0) c"
  proof (cases "map_of update_dict c")
    case None
    then show ?thesis by (simp add: on_conflict_do_update_def)
  next
    case (Some src)
    then have "src \<noteq> ''id''" by (rule update_dict_src_not_id)
    then have "proposed_row r n src = proposed_row r 0 src" by (rule proposed_row_id_free)
    then show ?thesis using Some by (simp add: on_conflict_do_update_def)
  qed
qed

lemma ocu_ocu: "on_conflict_do_update (on_conflict_do_update ex e1) e2 = on_conflict_do_update ex e2"
  by (rule ext) (simp add: on_conflict_do_update_def split: option.split)

lemma update_dict_same: "map_of update_dict c = Some src \<Longrightarrow> src = c"
  by (drule map_of_SomeD) (auto simp: update_dict_def)

lemma ocu_self: "on_conflict_do_update (proposed_row r n) (proposed_row r 0) = proposed_row r n"
proof
  fix c
  show "on_conflict_do_update (proposed_row r n) (proposed_row r 0) c = proposed_row r n c"
  proof (cases "map_of update_dict c")
    case None
    then show ?thesis by (simp add: on_conflict_do_update_def)
  next
    case (Some src)
    then have "src = c" "src \<noteq> ''id''"
      by (auto dest: update_dict_same update_dict_src_not_id)
    then show ?thesis using Some
      by (simp add: on_conflict_do_update_def proposed_row_id_free [of c r 0 n])
  qed
qed

lemma table_upsert_row:
  "table (upsert_row r d) k =
     (if k = key_of r
      then Some (case table d k of None \<Rightarrow> proposed_row r (next_id d)
                 | Some ex \<Rightarrow> on_conflict_do_update ex (proposed_row r (next_id d)))
      else table d k)"
  by (simp add: upsert_row_def Let_def)

lemma fold_upsert_other:
  "last_with_key k rs = None \<Longrightarrow> table (fold upsert_row rs d) k = table d k"
proof (induction rs arbitrary: d)
  case Nil
  then show ?case by simp
next
  case (Cons a rs)
  then have "last_with_key k rs = None" "key_of a \<noteq> k"
    by (auto split: option.splits if_splits)
  then show ?case using Cons.IH [of "upsert_row a d"]
    by (auto simp: table_upsert_row)
qed

lemma fold_upsert_existing:
  "table d k = Some ex \<Longrightarrow>
   table (fold upsert_row rs d) k =
     Some (case last_with_key k rs of None \<Rightarrow> ex
           | Some r \<Rightarrow> on_conflict_do_update ex (proposed_row r 0))"
proof (induction rs arbitrary: d ex)
  case Nil
  then show ?case by simp
next
  case (Cons a rs)
  show ?case
  proof (cases "key_of a = k")
    case True
    have "table (upsert_row a d) k = Some (on_conflict_do_update ex (proposed_row a 0))"
      using True Cons.prems ocu_proposed_any_id [of ex a "next_id d"] by (simp add: table_upsert_row)
    from Cons.IH [OF this] show ?thesis
      using True by (simp add: ocu_ocu split: option.split)
  next
    case False
    then have "table (upsert_row a d) k = Some ex"
      using Cons.prems by (simp add: table_upsert_row)
    from Cons.IH [OF this] show ?thesis
      using False by (simp split: option.split)
  qed
qed

lemma fold_upsert_written:
  "last_with_key k rs = Some r \<Longrightarrow>
   \<exists>ex. table (fold upsert_row rs d) k = Some (on_conflict_do_update ex (proposed_row r 0))"
proof (induction rs arbitrary: d)
  case Nil
  then show ?case by simp
next
  case (Cons a rs)
  show ?case
  proof (cases "last_with_key k rs")
    case (Some r')
    then have "r' = r" using Cons.prems by simp
    then show ?thesis using Cons.IH [of "upsert_row a d"] Some by simp
  next
    case None
    then have a: "key_of a = k" "r = a"
      using Cons.prems by (auto split: if_splits)
    have "table (fold upsert_row rs (upsert_row a d)) k = table (upsert_row a d) k"
      by (rule fold_upsert_other [OF None])
    also have "\<dots> = Some (case table d k of None \<Rightarrow> proposed_row a (next_id d)
                 | Some ex \<Rightarrow> on_conflict_do_update ex (proposed_row a (next_id d)))"
      using a by (simp add: table_upsert_row)
    finally have t: "table (fold upsert_row (a # rs) d) k =
        Some (case table d k of None \<Rightarrow> proposed_row a (next_id d)
                 | Some ex \<Rightarrow> on_conflict_do_update ex (proposed_row a (next_id d)))"
      by simp
    show ?thesis
    proof (cases "table d k")
      case None
      with t have "table (fold upsert_row (a # rs) d) k = Some (proposed_row a (next_id d))"
        by simp
      then have "table (fold upsert_row (a # rs) d) k =
          Some (on_conflict_do_update (proposed_row a (next_id d)) (proposed_row a 0))"
        by (simp only: ocu_self)
      then show ?thesis unfolding a(2)
        by (intro exI [of _ "proposed_row a (next_id d)"])
    next
      case (Some ex)
      with t have "table (fold upsert_row (a # rs) d) k =
          Some (on_conflict_do_update ex (proposed_row a (next_id d)))"
        by simp
      then have "table (fold upsert_row (a # rs) d) k =
          Some (on_conflict_do_update ex (proposed_row a 0))"
        using ocu_proposed_any_id [of ex a "next_id d"] by (simp only:)
      then show ?thesis unfolding a(2)
        by (intro exI [of _ ex])
    qed
  qed
qed

lemma fold_upsert_idem:
  "table (fold upsert_row rs (fold upsert_row rs d)) = table (fold upsert_row rs d)"
proof
  fix k
  show "table (fold upsert_row rs (fold upsert_row rs d)) k = table (fold upsert_row rs d) k"
  proof (cases "last_with_key k rs")
    case None
    then show ?thesis by (simp add: fold_upsert_other)
  next
    case (Some r)
    from fold_upsert_written [OF Some, of d] obtain ex where
      ex: "table (fold upsert_row rs d) k = Some (on_conflict_do_update ex (proposed_row r 0))"
      by blast
    from fold_upsert_existing [OF ex, of rs] show ?thesis
      using Some ex by (simp add: ocu_ocu)
  qed
qed

lemma concat_batches: "0 < n \<Longrightarrow> concat (batches n xs) = xs"
proof (induction n xs rule: batches.induct)
  case (1 n xs)
  show ?case
  proof (cases "xs = []")
    case True
    then show ?thesis by (simp add: batches.simps)
  next
    case False
    then have "concat (batches n xs) = take n xs @ concat (batches n (drop n xs))"
      using "1.prems" by (subst batches.simps) simp
    also have "\<dots> = take n xs @ drop n xs"
      using "1.IH" False "1.prems" by simp
    finally show ?thesis by simp
  qed
qed

lemma not_null_any_id:
  "(\<exists>c \<in> set not_null_columns. proposed_row r n c = None)
   \<longleftrightarrow> (\<exists>c \<in> set not_null_columns. proposed_row r m c = None)"
  by (simp add: not_null_columns_def proposed_row_def)

lemma execute_rows_Inr:
  "execute_rows rs affected d = Inr d' \<Longrightarrow>
   d' = fold upsert_row rs d \<and> distinct (map key_of rs) \<and> set (map key_of rs) \<inter> set affected = {}
   \<and> (\<forall>d0. execute_rows rs affected d0 = Inr (fold upsert_row rs d0))"
proof (induction rs arbitrary: affected d)
  case Nil
  then show ?case by simp
next
  case (Cons r rs)
  from Cons.prems have
    c: "\<not> (\<exists>c \<in> set not_null_columns. proposed_row r (next_id d) c = None)"
       "key_of r \<notin> set affected"
       "execute_rows rs (key_of r # affected) (upsert_row r d) = Inr d'"
    by (auto split: if_splits)
  from Cons.IH [OF c(3)] have
    ih: "d' = fold upsert_row rs (upsert_row r d)" "distinct (map key_of rs)"
        "set (map key_of rs) \<inter> set (key_of r # affected) = {}"
        "\<forall>d0. execute_rows rs (key_of r # affected) d0 = Inr (fold upsert_row rs d0)"
    by blast+
  have nn: "\<And>n. \<not> (\<exists>c \<in> set not_null_columns. proposed_row r n c = None)"
    using c(1) not_null_any_id [of r _ "next_id d"] by blast
  have "\<forall>d0. execute_rows (r # rs) affected d0 = Inr (fold upsert_row (r # rs) d0)"
    using nn c(2) ih(4) by simp
  then show ?case using ih c(2) by auto
qed

lemma execute_upsert_Inr:
  "execute_upsert batch d = Inr d' \<Longrightarrow>
   d' = fold upsert_row batch d \<and> distinct (map key_of batch)
   \<and> (\<forall>d0. execute_upsert batch d0 = Inr (fold upsert_row batch d0))"
  unfolding execute_upsert_def using execute_rows_Inr [of batch "[]" d d'] by blast

lemma batches_loop_committed: "committed (snd (batches_loop f k bs s)) = committed s"
  by (induction bs arbitrary: k s) (auto split: sum.splits prod.splits)

lemma batches_loop_None:
  "batches_loop f k bs s = (None, s') \<Longrightarrow>
   working s' = fold upsert_row (concat bs) (working s)
   \<and> (\<forall>k0 s0. fst (batches_loop (\<lambda>_. False) k0 bs s0) = None)"
proof (induction bs arbitrary: k s)
  case Nil
  then show ?case by simp
next
  case (Cons b bs)
  from Cons.prems obtain w where
    w: "\<not> f k" "execute_upsert b (working s) = Inr w"
       "batches_loop f (Suc k) bs (s\<lparr>working := w\<rparr>) = (None, s')"
    by (auto split: if_splits sum.splits prod.splits)
  from execute_upsert_Inr [OF w(2)] have
    b: "w = fold upsert_row b (working s)" "\<forall>d0. execute_upsert b d0 = Inr (fold upsert_row b d0)"
    by blast+
  from Cons.IH [OF w(3)] have
    ih: "working s' = fold upsert_row (concat bs) w"
        "\<forall>k0 s0. fst (batches_loop (\<lambda>_. False) k0 bs s0) = None"
    by simp_all
  show ?case using b ih by simp
qed

text \<open>
  When a statement or the commit raises, \<open>_store_data\<close> raises, and the table of the
  store is the one it was before.
\<close>

lemma store_data_raises:
  assumes "fst (batches_loop (execute_fails flts) 0 (batches 1000 (to_dict_records df))
                  (get_session d)) \<noteq> None
           \<or> commit_fails flts"
  shows "\<exists>e. fst (store_data flts df d) = Inl e"
    and "table (snd (store_data flts df d)) = table d"
proof -
  let ?r = "batches_loop (execute_fails flts) 0 (batches 1000 (to_dict_records df)) (get_session d)"
  have c: "committed (snd ?r) = table d"
    by (simp add: batches_loop_committed get_session_def)
  show "\<exists>e. fst (store_data flts df d) = Inl e"
    using assms
    by (cases ?r) (auto simp: store_data_def Let_def split: option.splits)
  show "table (snd (store_data flts df d)) = table d"
    using assms c
    by (cases ?r)
       (auto simp: store_data_def Let_def session_close_def session_rollback_def
             split: option.splits)
qed

lemma store_data_rollback:
  "fst (store_data flts df d) = Inl e \<Longrightarrow> table (snd (store_data flts df d)) = table d"
proof -
  let ?r = "batches_loop (execute_fails flts) 0 (batches 1000 (to_dict_records df)) (get_session d)"
  have "committed (snd ?r) = table d"
    by (simp add: batches_loop_committed get_session_def)
  moreover assume "fst (store_data flts df d) = Inl e"
  ultimately show ?thesis
    by (cases ?r)
       (auto simp: store_data_def Let_def session_close_def session_rollback_def
             split: option.splits if_splits)
qed

lemma store_data_success:
  assumes "fst (store_data flts df d) = Inr u"
  shows "snd (store_data flts df d) = fold upsert_row (to_dict_records df) d"
    and "\<forall>k0 s0. fst (batches_loop (\<lambda>_. False) k0 (batches 1000 (to_dict_records df)) s0) = None"
proof -
  let ?bs = "batches 1000 (to_dict_records df)"
  obtain s' where
    s': "batches_loop (execute_fails flts) 0 ?bs (get_session d) = (None, s')"
        "snd (store_data flts df d) = working s'"
    using assms
    by (cases "batches_loop (execute_fails flts) 0 ?bs (get_session d)")
       (auto simp: store_data_def Let_def session_close_def session_commit_def
             split: option.splits if_splits)
  from batches_loop_None [OF s'(1)] have
    w: "working s' = fold upsert_row (concat ?bs) (working (get_session d))"
       "\<forall>k0 s0. fst (batches_loop (\<lambda>_. False) k0 ?bs s0) = None"
    by blast+
  show "snd (store_data flts df d) = fold upsert_row (to_dict_records df) d"
    using s'(2) w(1) by (simp add: concat_batches get_session_def)
  show "\<forall>k0 s0. fst (batches_loop (\<lambda>_. False) k0 ?bs s0) = None"
    by (rule w(2))
qed

lemma store_data_success_again:
  assumes "fst (store_data flts df d) = Inr u"
    and "\<forall>k. \<not> execute_fails flts' k" and "\<not> commit_fails flts'"
  shows "fst (store_data flts' df d') = Inr ()"
proof -
  have nf: "execute_fails flts' = (\<lambda>_. False)" using assms(2) by auto
  have "fst (batches_loop (\<lambda>_. False) 0 (batches 1000 (to_dict_records df)) (get_session d')) = None"
    using store_data_success(2) [OF assms(1)] by blast
  then show ?thesis
    using assms(3)
    by (cases "batches_loop (\<lambda>_. False) 0 (batches 1000 (to_dict_records df)) (get_session d')")
       (simp add: store_data_def Let_def nf)
qed

text \<open>
  C6. Submitting the same frame to \<open>_store_data\<close> a second time leaves the table as
  the first submission left it, for every frame and every state of the store. The
  first submission is one that no failure of the store's own interrupts; the second
  may even fail, it is then rolled back to the same table.
\<close>

theorem store_data_idempotent:
  assumes "\<forall>k. \<not> execute_fails f1 k" and "\<not> commit_fails f1"
  shows "table (snd (store_data f2 df (snd (store_data f1 df d)))) = table (snd (store_data f1 df d))"
proof -
  let ?bs = "batches 1000 (to_dict_records df)"
  let ?rs = "to_dict_records df"
  let ?d1 = "snd (store_data f1 df d)"
  have nf: "execute_fails f1 = (\<lambda>_. False)" using assms(1) by auto
  show ?thesis
  proof (cases "fst (store_data f2 df ?d1)")
    case (Inl e2)
    then show ?thesis by (rule store_data_rollback)
  next
    case second: (Inr u2)
    show ?thesis
    proof (cases "fst (store_data f1 df d)")
      case (Inl e)
      have "fst (batches_loop (\<lambda>_. False) 0 ?bs (get_session d)) \<noteq> None"
        using Inl assms(2)
        by (cases "batches_loop (\<lambda>_. False) 0 ?bs (get_session d)")
           (auto simp: store_data_def Let_def nf split: option.splits)
      with store_data_success(2) [OF second, rule_format, of 0 "get_session d"]
      show ?thesis by simp
    next
      case (Inr u)
      from store_data_success(1) [OF this] have d1: "?d1 = fold upsert_row ?rs d" .
      from store_data_success(1) [OF second] show ?thesis
        unfolding d1 by (simp only: fold_upsert_idem)
    qed
  qed
qed

theorem store_data_idempotent_witness:
  "fst (store_data \<lparr>execute_fails = (\<lambda>k. False), commit_fails = False\<rparr>
          \<lparr>bars = [\<lparr>symbol = ''X'', date = 1, openp = 10, high = 10, low = 9, close = 10, volume = 5\<rparr>],
           extra = [(''is_all_time_high'', [CBool True])]\<rparr>
          \<lparr>table = (\<lambda>k. None), next_id = 1\<rparr>) = Inr ()
   \<and> table (snd (store_data \<lparr>execute_fails = (\<lambda>k. False), commit_fails = False\<rparr>
          \<lparr>bars = [\<lparr>symbol = ''X'', date = 1, openp = 10, high = 10, low = 9, close = 10, volume = 5\<rparr>],
           extra = [(''is_all_time_high'', [CBool True])]\<rparr>
          \<lparr>table = (\<lambda>k. None), next_id = 1\<rparr>)) (Some (CStr ''X''), Some (CDate 1)) \<noteq> None
   \<and> fst (store_data \<lparr>execute_fails = (\<lambda>k. False), commit_fails = False\<rparr>
          \<lparr>bars = [\<lparr>symbol = ''X'', date = 1, openp = 10, high = 10, low = 9, close = 10, volume = 5\<rparr>],
           extra = [(''is_all_time_high'', [CBool True])]\<rparr>
          (snd (store_data \<lparr>execute_fails = (\<lambda>k. False), commit_fails = False\<rparr>
             \<lparr>bars = [\<lparr>symbol = ''X'', date = 1, openp = 10, high = 10, low = 9, close = 10, volume = 5\<rparr>],
           extra = [(''is_all_time_high'', [CBool True])]\<rparr>
             \<lparr>table = (\<lambda>k. None), next_id = 1\<rparr>))) = Inr ()
   \<and> table (snd (store_data \<lparr>execute_fails = (\<lambda>k. False), commit_fails = False\<rparr>
          \<lparr>bars = [\<lparr>symbol = ''X'', date = 1, openp = 10, high = 10, low = 9, close = 10, volume = 5\<rparr>],
           extra = [(''is_all_time_high'', [CBool True])]\<rparr>
          (snd (store_data \<lparr>execute_fails = (\<lambda>k. False), commit_fails = False\<rparr>
             \<lparr>bars = [\<lparr>symbol = ''X'', date = 1, openp = 10, high = 10, low = 9, close = 10, volume = 5\<rparr>],
           extra = [(''is_all_time_high'', [CBool True])]\<rparr>
             \<lparr>table = (\<lambda>k. None), next_id = 1\<rparr>))))
     = table (snd (store_data \<lparr>execute_fails = (\<lambda>k. False), commit_fails = False\<rparr>
             \<lparr>bars = [\<lparr>symbol = ''X'', date = 1, openp = 10, high = 10, low = 9, close = 10, volume = 5\<rparr>],
           extra = [(''is_all_time_high'', [CBool True])]\<rparr>
             \<lparr>table = (\<lambda>k. None), next_id = 1\<rparr>))"
proof -
  let ?f = "\<lparr>execute_fails = (\<lambda>k. False), commit_fails = False\<rparr>"
  let ?df = "\<lparr>bars = [\<lparr>symbol = ''X'', date = 1, openp = 10, high = 10, low = 9, close = 10, volume = 5\<rparr>],
           extra = [(''is_all_time_high'', [CBool True])]\<rparr>"
  let ?d = "\<lparr>table = (\<lambda>k. None), next_id = 1\<rparr>"
  have h1: "\<forall>k. \<not> execute_fails ?f k" by simp
  have h2: "\<not> commit_fails ?f" by simp
  have ok: "fst (store_data ?f ?df ?d) = Inr ()" by code_simp
  have key: "table (snd (store_data ?f ?df ?d)) (Some (CStr ''X''), Some (CDate 1)) \<noteq> None"
    by code_simp
  have again: "fst (store_data ?f ?df (snd (store_data ?f ?df ?d))) = Inr ()"
    by (rule store_data_success_again [OF ok h1 h2])
  show ?thesis
    using ok key again store_data_idempotent [OF h1 h2, of ?f ?df ?d] by (intro conjI)
qed

lemma last_with_key_None: "k \<notin> key_of ` set rs \<Longrightarrow> last_with_key k rs = None"
  by (induction rs) auto

lemma last_with_key_distinct:
  "distinct (map key_of rs) \<Longrightarrow> r \<in> set rs \<Longrightarrow> last_with_key (key_of r) rs = Some r"
proof (induction rs)
  case Nil
  then show ?case by simp
next
  case (Cons a rs)
  show ?case
  proof (cases "r \<in> set rs")
    case True
    then show ?thesis using Cons by simp
  next
    case False
    then have "r = a" using Cons.prems by simp
    moreover have "last_with_key (key_of a) rs = None"
      using Cons.prems(1) by (intro last_with_key_None) simp
    ultimately show ?thesis by simp
  qed
qed

lemma ocu_value_column:
  "c \<in> set stock_data_columns \<Longrightarrow> c \<noteq> ''id'' \<Longrightarrow> c \<noteq> ''symbol'' \<Longrightarrow> c \<noteq> ''date'' \<Longrightarrow>
   map_of update_dict c = Some c"
  by (auto simp: stock_data_columns_def update_dict_def)

lemma ocu_key_columns:
  "map_of update_dict ''id'' = None" "map_of update_dict ''symbol'' = None"
  "map_of update_dict ''date'' = None"
  by (simp_all add: update_dict_def)

text \<open>
  C5. When a statement of the writer succeeds, every row of its batch whose key
  \<open>(symbol, date)\<close> was already in the table has replaced the stored row: every column
  of the table other than \<open>id\<close>, \<open>symbol\<close> and \<open>date\<close> holds the value of the new row
  (whatever the stored value was, so a flag can go from true to false), and \<open>id\<close>,
  \<open>symbol\<close> and \<open>date\<close> are those of the stored row.
\<close>

theorem upsert_overwrites_value_columns:
  assumes "execute_upsert batch d = Inr d'"
    and "r \<in> set batch"
    and "table d (key_of r) = Some existing"
  shows "\<exists>row. table d' (key_of r) = Some row
          \<and> (\<forall>c \<in> set stock_data_columns.
                 c \<notin> {''id'', ''symbol'', ''date''} \<longrightarrow>
                 row c = (case map_of r c of Some v \<Rightarrow> Some v | None \<Rightarrow> column_default c))
          \<and> row ''id'' = existing ''id''
          \<and> row ''symbol'' = existing ''symbol''
          \<and> row ''date'' = existing ''date''"
proof -
  from execute_upsert_Inr [OF assms(1)] have
    d': "d' = fold upsert_row batch d" and dist: "distinct (map key_of batch)"
    by blast+
  have lw: "last_with_key (key_of r) batch = Some r"
    by (rule last_with_key_distinct [OF dist assms(2)])
  let ?row = "on_conflict_do_update existing (proposed_row r 0)"
  have row: "table d' (key_of r) = Some ?row"
    unfolding d' using fold_upsert_existing [OF assms(3), of batch] lw by simp
  have vals: "\<forall>c \<in> set stock_data_columns.
                 c \<notin> {''id'', ''symbol'', ''date''} \<longrightarrow>
                 ?row c = (case map_of r c of Some v \<Rightarrow> Some v | None \<Rightarrow> column_default c)"
  proof (intro ballI impI)
    fix c
    assume c: "c \<in> set stock_data_columns" "c \<notin> {''id'', ''symbol'', ''date''}"
    then have "map_of update_dict c = Some c"
      by (intro ocu_value_column) auto
    then show "?row c = (case map_of r c of Some v \<Rightarrow> Some v | None \<Rightarrow> column_default c)"
      using c by (simp add: on_conflict_do_update_def proposed_row_def)
  qed
  have keys: "?row ''id'' = existing ''id''" "?row ''symbol'' = existing ''symbol''"
             "?row ''date'' = existing ''date''"
    by (simp_all add: on_conflict_do_update_def ocu_key_columns)
  show ?thesis using row vals keys by blast
qed


theorem upsert_overwrites_value_columns_witness:
  "execute_upsert [[(''date'', CDate 1), (''symbol'', CStr ''X''), (''open'', CFloat (Fin 10)),
            (''high'', CFloat (Fin 11)), (''low'', CFloat (Fin 9)), (''close'', CFloat (Fin 10)),
            (''volume'', CFloat (Fin 5)), (''is_all_time_high'', CBool False)]]
       \<lparr>table = (\<lambda>k. None)((Some (CStr ''X''), Some (CDate 1)) \<mapsto> (\<lambda>c. if c = ''is_all_time_high'' then Some (CBool True)
                 else if c = ''id'' then Some (CInt 7) else None)),
            next_id = 8\<rparr>
     = Inr (fold upsert_row [[(''date'', CDate 1), (''symbol'', CStr ''X''), (''open'', CFloat (Fin 10)),
            (''high'', CFloat (Fin 11)), (''low'', CFloat (Fin 9)), (''close'', CFloat (Fin 10)),
            (''volume'', CFloat (Fin 5)), (''is_all_time_high'', CBool False)]]
              \<lparr>table = (\<lambda>k. None)((Some (CStr ''X''), Some (CDate 1)) \<mapsto> (\<lambda>c. if c = ''is_all_time_high'' then Some (CBool True)
                 else if c = ''id'' then Some (CInt 7) else None)),
            next_id = 8\<rparr>)
   \<and> table \<lparr>table = (\<lambda>k. None)((Some (CStr ''X''), Some (CDate 1)) \<mapsto> (\<lambda>c. if c = ''is_all_time_high'' then Some (CBool True)
                 else if c = ''id'' then Some (CInt 7) else None)),
            next_id = 8\<rparr>
         (key_of [(''date'', CDate 1), (''symbol'', CStr ''X''), (''open'', CFloat (Fin 10)),
            (''high'', CFloat (Fin 11)), (''low'', CFloat (Fin 9)), (''close'', CFloat (Fin 10)),
            (''volume'', CFloat (Fin 5)), (''is_all_time_high'', CBool False)])
       = Some (\<lambda>c. if c = ''is_all_time_high'' then Some (CBool True)
                 else if c = ''id'' then Some (CInt 7) else None)
   \<and> (case table (fold upsert_row [[(''date'', CDate 1), (''symbol'', CStr ''X''), (''open'', CFloat (Fin 10)),
            (''high'', CFloat (Fin 11)), (''low'', CFloat (Fin 9)), (''close'', CFloat (Fin 10)),
            (''volume'', CFloat (Fin 5)), (''is_all_time_high'', CBool False)]]
              \<lparr>table = (\<lambda>k. None)((Some (CStr ''X''), Some (CDate 1)) \<mapsto> (\<lambda>c. if c = ''is_all_time_high'' then Some (CBool True)
                 else if c = ''id'' then Some (CInt 7) else None)),
            next_id = 8\<rparr>)
            (key_of [(''date'', CDate 1), (''symbol'', CStr ''X''), (''open'', CFloat (Fin 10)),
            (''high'', CFloat (Fin 11)), (''low'', CFloat (Fin 9)), (''close'', CFloat (Fin 10)),
            (''volume'', CFloat (Fin 5)), (''is_all_time_high'', CBool False)]) of
         None \<Rightarrow> False
       | Some row \<Rightarrow> row ''is_all_time_high'' = Some (CBool False) \<and> row ''id'' = Some (CInt 7))"
proof -
  let ?r = "[(''date'', CDate 1), (''symbol'', CStr ''X''), (''open'', CFloat (Fin 10)),
            (''high'', CFloat (Fin 11)), (''low'', CFloat (Fin 9)), (''close'', CFloat (Fin 10)),
            (''volume'', CFloat (Fin 5)), (''is_all_time_high'', CBool False)]"
  let ?ex = "(\<lambda>c. if c = ''is_all_time_high'' then Some (CBool True)
                 else if c = ''id'' then Some (CInt 7) else None)"
  let ?d = "\<lparr>table = (\<lambda>k. None)((Some (CStr ''X''), Some (CDate 1)) \<mapsto> (\<lambda>c. if c = ''is_all_time_high'' then Some (CBool True)
                 else if c = ''id'' then Some (CInt 7) else None)),
            next_id = 8\<rparr>"
  have nn: "\<not> (\<exists>c \<in> set not_null_columns. proposed_row ?r 0 c = None)"
    by code_simp
  have "\<not> (\<exists>c \<in> set not_null_columns. proposed_row ?r (next_id ?d) c = None)"
    unfolding not_null_any_id [of ?r "next_id ?d" 0] by (rule nn)
  then have h1: "execute_upsert [?r] ?d = Inr (fold upsert_row [?r] ?d)"
    unfolding execute_upsert_def by simp
  have h2: "?r \<in> set [?r]" by simp
  have k: "key_of ?r = (Some (CStr ''X''), Some (CDate 1))" by code_simp
  have h3: "table ?d (key_of ?r) = Some ?ex"
    unfolding k by simp
  have col: "''is_all_time_high'' \<in> set stock_data_columns"
            "''is_all_time_high'' \<notin> {''id'', ''symbol'', ''date''}"
    by (simp_all add: stock_data_columns_def)
  from upsert_overwrites_value_columns [OF h1 h2 h3] obtain row where
    row: "table (fold upsert_row [?r] ?d) (key_of ?r) = Some row
          \<and> (\<forall>c \<in> set stock_data_columns.
                 c \<notin> {''id'', ''symbol'', ''date''} \<longrightarrow>
                 row c = (case map_of ?r c of Some v \<Rightarrow> Some v | None \<Rightarrow> column_default c))
          \<and> row ''id'' = ?ex ''id''
          \<and> row ''symbol'' = ?ex ''symbol''
          \<and> row ''date'' = ?ex ''date''" ..
  have r1: "table (fold upsert_row [?r] ?d) (key_of ?r) = Some row"
    using row by (rule conjunct1)
  have r2: "\<forall>c \<in> set stock_data_columns.
                 c \<notin> {''id'', ''symbol'', ''date''} \<longrightarrow>
                 row c = (case map_of ?r c of Some v \<Rightarrow> Some v | None \<Rightarrow> column_default c)"
    using row by (rule conjunct1 [OF conjunct2])
  have r3: "row ''id'' = ?ex ''id''"
    using row by (rule conjunct1 [OF conjunct2 [OF conjunct2]])
  have "row ''is_all_time_high''
      = (case map_of ?r ''is_all_time_high'' of Some v \<Rightarrow> Some v
         | None \<Rightarrow> column_default ''is_all_time_high'')"
    using r2 [rule_format, OF col] .
  then have a: "row ''is_all_time_high'' = Some (CBool False)" by simp
  have b: "row ''id'' = Some (CInt 7)" using r3 by simp
  have e: "case table (fold upsert_row [?r] ?d) (key_of ?r) of
         None \<Rightarrow> False
       | Some row \<Rightarrow> row ''is_all_time_high'' = Some (CBool False) \<and> row ''id'' = Some (CInt 7)"
    by (simp only: r1 option.case a b simp_thms)
  show ?thesis using h1 h3 e by (intro conjI)
qed

section \<open>Verification: frames and the symbol loop\<close>

lemma str_nat_periods:
  "str_nat 10 = ''10''" "str_nat 21 = ''21''" "str_nat 50 = ''50''" "str_nat 100 = ''100''"
  by code_simp+

lemma bars_set_column [simp]: "bars (set_column n c f) = bars f"
  by (simp add: set_column_def)

lemma calc_set_column [simp]:
  "calculate_t_score (set_column n c f) = calculate_t_score f"
  "calculate_f_score (set_column n c f) = calculate_f_score f"
  "calculate_52_week_high (set_column n c f) = calculate_52_week_high f"
  "calculate_52_week_low (set_column n c f) = calculate_52_week_low f"
  "calculate_all_time_high (set_column n c f) = calculate_all_time_high f"
  "calculate_all_time_low (set_column n c f) = calculate_all_time_low f"
  by (simp_all add: calculate_t_score_def calculate_f_score_def calculate_52_week_high_def
        calculate_52_week_low_def calculate_all_time_high_def calculate_all_time_low_def)

lemma setitem_last: "setitem (length h) n c (h @ [g]) = h @ [set_column n c g]"
  by (simp add: setitem_def)

lemma nth_last: "(h @ [g]) ! length h = g"
  by simp

lemma df_copy_eq: "df_copy r h = (length h, h @ [h ! r])"
  by (simp add: df_copy_def alloc_def)

lemma sort_values_date_eq: "sort_values_date r h = (length h, h @ [sort_by_date (h ! r)])"
  by (simp add: sort_values_date_def alloc_def)

lemma select_symbol_eq: "select_symbol s r h = (length h, h @ [select_rows s (h ! r)])"
  by (simp add: select_symbol_def alloc_def)

lemma add_all_indicators_eq:
  "add_all_indicators r h =
     (length h + 2, h @ [h ! r, h ! r, with_indicators (sort_by_date (h ! r))])"
proof -
  let ?h2 = "h @ [h ! r, h ! r]"
  let ?g = "sort_by_date (h ! r)"
  have c1: "df_copy r h = (length h, h @ [h ! r])" by (rule df_copy_eq)
  have c2: "df_copy (length h) (h @ [h ! r]) = (length h + 1, ?h2)"
    by (simp add: df_copy_eq)
  have c3: "sort_values_date (length h + 1) ?h2 = (length ?h2, ?h2 @ [?g])"
    by (simp add: sort_values_date_eq nth_append)
  have "add_all_indicators r h = (length ?h2, ?h2 @ [with_indicators ?g])"
    by (simp only: add_all_indicators_def c1 c2 c3 Let_def prod.case DMA_PERIODS_def
          EMA_PERIODS_def fold_simps o_apply str_nat_periods id_apply
          setitem_last nth_last calc_set_column bars_set_column
          with_indicators_def indicator_columns_def append_Cons append_Nil)
  then show ?thesis by simp
qed


lemma bars_take_rows [simp]: "bars (take_rows idx f) = map (\<lambda>i. bars f ! i) idx"
  by (simp add: take_rows_def)

lemma bars_select_rows: "bars (select_rows s f) = filter (\<lambda>b. symbol b = s) (bars f)"
proof -
  let ?xs = "bars f"
  have "filter (\<lambda>i. map (\<lambda>b. symbol b = s) ?xs ! i) [0..<length ?xs]
        = filter ((\<lambda>b. symbol b = s) \<circ> (\<lambda>i. ?xs ! i)) [0..<length ?xs]"
    by (rule filter_cong) simp_all
  then have "bars (select_rows s f)
        = map (\<lambda>i. ?xs ! i) (filter ((\<lambda>b. symbol b = s) \<circ> (\<lambda>i. ?xs ! i)) [0..<length ?xs])"
    by (simp add: select_rows_def Let_def)
  also have "\<dots> = filter (\<lambda>b. symbol b = s) (map (\<lambda>i. ?xs ! i) [0..<length ?xs])"
    by (simp only: filter_map)
  also have "\<dots> = filter (\<lambda>b. symbol b = s) ?xs"
    by (simp only: map_nth)
  finally show ?thesis .
qed

lemma map_insort_key:
  "map g (insort_key (\<lambda>i. f (g i)) x ys) = insort_key f (g x) (map g ys)"
  by (induction ys) simp_all

lemma map_sort_key: "map g (sort_key (\<lambda>i. f (g i)) xs) = sort_key f (map g xs)"
  by (induction xs) (simp_all add: map_insort_key)

lemma bars_sort_by_date: "bars (sort_by_date f) = sort_key date (bars f)"
proof -
  have "bars (sort_by_date f)
        = map (\<lambda>i. bars f ! i) (sort_key (\<lambda>i. date (bars f ! i)) [0..<length (bars f)])"
    by (simp add: sort_by_date_def)
  also have "\<dots> = sort_key date (map (\<lambda>i. bars f ! i) [0..<length (bars f)])"
    by (rule map_sort_key)
  also have "\<dots> = sort_key date (bars f)"
    by (simp only: map_nth)
  finally show ?thesis .
qed

lemma bars_fold_set_column [simp]:
  "bars (fold (\<lambda>(name, col). set_column name col) cols f) = bars f"
  by (induction cols arbitrary: f) (simp_all add: case_prod_beta)

lemma bars_with_indicators [simp]: "bars (with_indicators f) = bars f"
  by (simp add: with_indicators_def)

lemma bars_concat_frames [simp]: "bars (concat_frames fs) = concat (map bars fs)"
  by (simp add: concat_frames_def)

lemma bars_processed_frame:
  "bars (processed_frame s f) = sort_key date (filter (\<lambda>b. symbol b = s) (bars f))"
proof -
  have "sort_key date (sort_key date (filter (\<lambda>b. symbol b = s) (bars f)))
        = sort_key date (filter (\<lambda>b. symbol b = s) (bars f))"
    by (rule sort_key_id_if_sorted) (rule sorted_sort_key)
  then show ?thesis
    by (simp add: processed_frame_def bars_sort_by_date bars_select_rows)
qed

text \<open>The loop allocates new objects only: the heap it returns extends the one it got.\<close>

lemma symbols_loop_result:
  assumes "r < length h"
  shows "\<exists>rs ext. symbols_loop r ss acc h = (acc @ rs, h @ ext)
            \<and> map (\<lambda>a. (h @ ext) ! a) rs = map (\<lambda>s. processed_frame s (h ! r)) ss
            \<and> length rs = length ss"
  using assms
proof (induction ss arbitrary: acc h)
  case Nil
  then show ?case by simp
next
  case (Cons s ss)
  let ?sel = "select_rows s (h ! r)"
  let ?srt = "sort_by_date ?sel"
  let ?six = "[?sel, ?sel, ?srt, ?srt, ?srt, with_indicators (sort_by_date ?srt)]"
  let ?h1 = "h @ ?six"
  have step: "symbols_loop r (s # ss) acc h = symbols_loop r ss (acc @ [length h + 5]) ?h1"
  proof -
    have five: "Suc (Suc (Suc (Suc (Suc (length h))))) = length h + 5" by simp
    show ?thesis
      by (simp add: select_symbol_eq df_copy_eq sort_values_date_eq add_all_indicators_eq
            nth_append five)
  qed
  have r1: "r < length ?h1" using Cons.prems by simp
  have hr: "?h1 ! r = h ! r" using Cons.prems by (simp add: nth_append)
  from Cons.IH [OF r1, of "acc @ [length h + 5]"] obtain rs ext where
    ih: "symbols_loop r ss (acc @ [length h + 5]) ?h1 = ((acc @ [length h + 5]) @ rs, ?h1 @ ext)"
        "map (\<lambda>a. (?h1 @ ext) ! a) rs = map (\<lambda>s. processed_frame s (?h1 ! r)) ss"
        "length rs = length ss"
    by blast
  have p: "(?h1 @ ext) ! (length h + 5) = processed_frame s (h ! r)"
    by (simp add: nth_append processed_frame_def)
  have "symbols_loop r (s # ss) acc h = (acc @ ((length h + 5) # rs), h @ (?six @ ext))"
    unfolding step ih(1) by simp
  moreover have "map (\<lambda>a. (h @ (?six @ ext)) ! a) ((length h + 5) # rs)
                = map (\<lambda>s. processed_frame s (h ! r)) (s # ss)"
    using p ih(2) hr by simp
  moreover have "length ((length h + 5) # rs) = length (s # ss)"
    using ih(3) by simp
  ultimately show ?case by blast
qed


lemma unique_from_set_cong:
  "set s1 = set s2 \<Longrightarrow> unique_from s1 xs = unique_from s2 xs"
proof (induction xs arbitrary: s1 s2)
  case Nil
  then show ?case by simp
next
  case (Cons x xs)
  have "unique_from (x # s1) xs = unique_from (x # s2) xs"
    by (rule Cons.IH) (simp add: Cons.prems)
  moreover have "unique_from s1 xs = unique_from s2 xs"
    by (rule Cons.IH) (rule Cons.prems)
  ultimately show ?case using Cons.prems by simp
qed

lemma set_unique_from: "set (unique_from seen xs) = set xs - set seen"
  by (induction xs arbitrary: seen) auto

lemma distinct_unique_from: "distinct (unique_from seen xs)"
  by (induction xs arbitrary: seen) (auto simp: set_unique_from)

lemma set_unique [simp]: "set (unique xs) = set xs"
  by (simp add: unique_def set_unique_from)

lemma distinct_unique [simp]: "distinct (unique xs)"
  by (simp add: unique_def distinct_unique_from)

lemma unique_eq_Nil [simp]: "unique xs = [] \<longleftrightarrow> xs = []"
  by (metis set_unique set_empty)

lemma pd_concat_nonempty:
  "rs \<noteq> [] \<Longrightarrow> pd_concat rs h = (Inr (length h), h @ [concat_frames (map (\<lambda>r. h ! r) rs)])"
  by (simp add: pd_concat_def alloc_def)

lemma process_multiple_symbols_empty:
  "bars (h ! r) = [] \<Longrightarrow> process_multiple_symbols r h = (Inl ValueError, h)"
  by (simp add: process_multiple_symbols_def unique_def pd_concat_def)

lemma process_multiple_symbols_result:
  assumes "r < length h" and "bars (h ! r) \<noteq> []"
  shows "\<exists>out ext. process_multiple_symbols r h = (Inr out, h @ ext)
           \<and> (h @ ext) ! out =
               concat_frames (map (\<lambda>s. processed_frame s (h ! r)) (unique (map symbol (bars (h ! r)))))"
proof -
  let ?ss = "unique (map symbol (bars (h ! r)))"
  have ne: "?ss \<noteq> []" using assms(2) by simp
  from symbols_loop_result [OF assms(1), of ?ss "[]"] obtain rs ext where
    l: "symbols_loop r ?ss [] h = (rs, h @ ext)"
       "map (\<lambda>a. (h @ ext) ! a) rs = map (\<lambda>s. processed_frame s (h ! r)) ?ss"
       "length rs = length ?ss"
    by auto
  have rs: "rs \<noteq> []" using l(3) ne by auto
  have "process_multiple_symbols r h
        = (Inr (length (h @ ext)), (h @ ext) @ [concat_frames (map (\<lambda>a. (h @ ext) ! a) rs)])"
    by (simp only: process_multiple_symbols_def Let_def l(1) prod.case pd_concat_nonempty [OF rs])
  then have "process_multiple_symbols r h
        = (Inr (length (h @ ext)), h @ (ext @ [concat_frames (map (\<lambda>s. processed_frame s (h ! r)) ?ss)]))"
    by (simp only: l(2) append_assoc)
  moreover have "(h @ (ext @ [concat_frames (map (\<lambda>s. processed_frame s (h ! r)) ?ss)])) ! length (h @ ext)
        = concat_frames (map (\<lambda>s. processed_frame s (h ! r)) ?ss)"
    by (metis append_assoc nth_append_length)
  ultimately show ?thesis by blast
qed

section \<open>Verification: the frame of the indicator computation\<close>

lemma sum_list_single_flag:
  "distinct ss \<Longrightarrow> a \<in> set ss \<Longrightarrow>
   sum_list (map (\<lambda>s. if a = s then {#x#} else {#}) ss) = {#x#}"
proof (induction ss)
  case Nil
  then show ?case by simp
next
  case (Cons s ss)
  show ?case
  proof (cases "a = s")
    case True
    then have "a \<notin> set ss" using Cons.prems by simp
    then have "sum_list (map (\<lambda>s. if a = s then {#x#} else {#}) ss) = {#}"
      by (induction ss) auto
    then show ?thesis using True by simp
  next
    case False
    then show ?thesis using Cons by simp
  qed
qed

lemma mset_group_by:
  "distinct ss \<Longrightarrow> f ` set xs \<subseteq> set ss \<Longrightarrow>
   mset (concat (map (\<lambda>s. filter (\<lambda>b. f b = s) xs) ss)) = mset xs"
proof (induction xs)
  case Nil
  then show ?case by (simp add: mset_concat o_def)
next
  case (Cons x xs)
  have ih: "sum_list (map (\<lambda>s. mset (filter (\<lambda>b. f b = s) xs)) ss) = mset xs"
    using Cons by (simp add: mset_concat o_def)
  have "sum_list (map (\<lambda>s. mset (filter (\<lambda>b. f b = s) (x # xs))) ss)
        = sum_list (map (\<lambda>s. (if f x = s then {#x#} else {#}) + mset (filter (\<lambda>b. f b = s) xs)) ss)"
    by (rule arg_cong [where f = sum_list]) (rule map_cong, simp_all)
  also have "\<dots> = sum_list (map (\<lambda>s. if f x = s then {#x#} else {#}) ss)
                   + sum_list (map (\<lambda>s. mset (filter (\<lambda>b. f b = s) xs)) ss)"
    by (simp add: sum_list_addf)
  also have "\<dots> = {#x#} + mset xs"
    using Cons.prems ih by (simp add: sum_list_single_flag)
  finally show ?case by (simp add: mset_concat o_def)
qed

lemma add_all_indicators_frame:
  "case add_all_indicators r h of
     (out, h') \<Rightarrow> bars (h' ! out) = sort_key date (bars (h ! r)) \<and> (\<forall>a<length h. h' ! a = h ! a)"
proof -
  have "(h @ [h ! r, h ! r, with_indicators (sort_by_date (h ! r))]) ! (length h + 2)
        = with_indicators (sort_by_date (h ! r))"
    by (simp add: nth_append)
  then show ?thesis
    by (simp add: add_all_indicators_eq bars_sort_by_date nth_append del: nth_append_length)
qed

lemma process_multiple_symbols_frame:
  assumes "r < length h"
  shows "case process_multiple_symbols r h of
           (Inl e, h') \<Rightarrow> bars (h ! r) = [] \<and> (\<forall>a<length h. h' ! a = h ! a)
         | (Inr out, h') \<Rightarrow>
             bars (h' ! out) =
               concat (map (\<lambda>s. sort_key date (filter (\<lambda>b. symbol b = s) (bars (h ! r))))
                           (unique (map symbol (bars (h ! r)))))
           \<and> (\<forall>a<length h. h' ! a = h ! a)"
proof (cases "bars (h ! r) = []")
  case True
  then show ?thesis by (simp add: process_multiple_symbols_empty)
next
  case False
  from process_multiple_symbols_result [OF assms False] obtain out ext where
    res: "process_multiple_symbols r h = (Inr out, h @ ext)"
         "(h @ ext) ! out =
            concat_frames (map (\<lambda>s. processed_frame s (h ! r)) (unique (map symbol (bars (h ! r)))))"
    by blast
  have b: "bars ((h @ ext) ! out) =
             concat (map (\<lambda>s. sort_key date (filter (\<lambda>b. symbol b = s) (bars (h ! r))))
                         (unique (map symbol (bars (h ! r)))))"
    unfolding res(2) by (simp add: bars_processed_frame o_def)
  have k: "\<forall>a<length h. (h @ ext) ! a = h ! a"
    by (simp add: nth_append)
  show ?thesis
    unfolding res(1) using b k by (simp only: prod.case sum.case simp_thms)
qed

text \<open>
  C10. The indicator computation only adds columns. For a frame whose rows are in
  ascending date order, \<open>add_all_indicators\<close> returns a frame with the same bars
  (symbol, date, open, high, low, close, volume of every row). For a collection whose
  rows are in ascending date order within each symbol, \<open>process_multiple_symbols\<close>
  returns the bars of the collection grouped by symbol in the order of first
  appearance, every input row exactly once; it raises only for an empty collection.
  In every case each object that was on the heap before the call, the caller's frame
  among them, is what it was: the computation works on copies.
\<close>

theorem indicators_only_add_columns:
  assumes "r < length h"
  shows "(sorted_wrt (<) (map date (bars (h ! r))) \<longrightarrow>
            (case add_all_indicators r h of
               (out, h') \<Rightarrow> bars (h' ! out) = bars (h ! r) \<and> (\<forall>a<length h. h' ! a = h ! a)))
       \<and> ((\<forall>s. sorted_wrt (<) (map date (filter (\<lambda>b. symbol b = s) (bars (h ! r))))) \<longrightarrow>
            (case process_multiple_symbols r h of
               (Inl e, h') \<Rightarrow> bars (h ! r) = [] \<and> (\<forall>a<length h. h' ! a = h ! a)
             | (Inr out, h') \<Rightarrow>
                 bars (h' ! out) =
                   concat (map (\<lambda>s. filter (\<lambda>b. symbol b = s) (bars (h ! r)))
                               (unique (map symbol (bars (h ! r)))))
               \<and> mset (bars (h' ! out)) = mset (bars (h ! r))
               \<and> (\<forall>a<length h. h' ! a = h ! a)))"
proof (intro conjI impI)
  assume "sorted_wrt (<) (map date (bars (h ! r)))"
  then have "sort_key date (bars (h ! r)) = bars (h ! r)"
    by (intro sort_key_id_if_sorted strict_sorted_imp_sorted)
  then show "case add_all_indicators r h of
               (out, h') \<Rightarrow> bars (h' ! out) = bars (h ! r) \<and> (\<forall>a<length h. h' ! a = h ! a)"
    using add_all_indicators_frame [where r = r and h = h] by (simp add: case_prod_beta)
next
  assume srt: "\<forall>s. sorted_wrt (<) (map date (filter (\<lambda>b. symbol b = s) (bars (h ! r))))"
  have id: "\<And>s. sort_key date (filter (\<lambda>b. symbol b = s) (bars (h ! r)))
                = filter (\<lambda>b. symbol b = s) (bars (h ! r))"
    using srt by (intro sort_key_id_if_sorted strict_sorted_imp_sorted) simp
  have perm: "mset (concat (map (\<lambda>s. filter (\<lambda>b. symbol b = s) (bars (h ! r)))
                               (unique (map symbol (bars (h ! r)))))) = mset (bars (h ! r))"
    by (rule mset_group_by) simp_all
  show "case process_multiple_symbols r h of
               (Inl e, h') \<Rightarrow> bars (h ! r) = [] \<and> (\<forall>a<length h. h' ! a = h ! a)
             | (Inr out, h') \<Rightarrow>
                 bars (h' ! out) =
                   concat (map (\<lambda>s. filter (\<lambda>b. symbol b = s) (bars (h ! r)))
                               (unique (map symbol (bars (h ! r)))))
               \<and> mset (bars (h' ! out)) = mset (bars (h ! r))
               \<and> (\<forall>a<length h. h' ! a = h ! a)"
    using process_multiple_symbols_frame [OF assms] perm
    by (auto simp: id split: prod.splits sum.splits)
qed


theorem indicators_only_add_columns_witness:
  "(case process_multiple_symbols 0
          [\<lparr>bars = [\<lparr>symbol = ''A'', date = 1, openp = 1, high = 2, low = 1, close = 2, volume = 10\<rparr>,
                 \<lparr>symbol = ''B'', date = 1, openp = 5, high = 6, low = 4, close = 5, volume = 20\<rparr>,
                 \<lparr>symbol = ''A'', date = 2, openp = 2, high = 3, low = 2, close = 3, volume = 10\<rparr>], extra = []\<rparr>] of
      (Inl e, h') \<Rightarrow> False
    | (Inr out, h') \<Rightarrow>
        bars (h' ! out) =
          [\<lparr>symbol = ''A'', date = 1, openp = 1, high = 2, low = 1, close = 2, volume = 10\<rparr>,
                 \<lparr>symbol = ''A'', date = 2, openp = 2, high = 3, low = 2, close = 3, volume = 10\<rparr>,
                 \<lparr>symbol = ''B'', date = 1, openp = 5, high = 6, low = 4, close = 5, volume = 20\<rparr>]
      \<and> h' ! 0 = \<lparr>bars = [\<lparr>symbol = ''A'', date = 1, openp = 1, high = 2, low = 1, close = 2, volume = 10\<rparr>,
                 \<lparr>symbol = ''B'', date = 1, openp = 5, high = 6, low = 4, close = 5, volume = 20\<rparr>,
                 \<lparr>symbol = ''A'', date = 2, openp = 2, high = 3, low = 2, close = 3, volume = 10\<rparr>], extra = []\<rparr>)
   \<and> (case add_all_indicators 0
          [\<lparr>bars = [\<lparr>symbol = ''A'', date = 1, openp = 1, high = 2, low = 1, close = 2, volume = 10\<rparr>,
                 \<lparr>symbol = ''B'', date = 1, openp = 5, high = 6, low = 4, close = 5, volume = 20\<rparr>,
                 \<lparr>symbol = ''A'', date = 2, openp = 2, high = 3, low = 2, close = 3, volume = 10\<rparr>], extra = []\<rparr>] of
      (out, h') \<Rightarrow> h' ! 0 = \<lparr>bars = [\<lparr>symbol = ''A'', date = 1, openp = 1, high = 2, low = 1, close = 2, volume = 10\<rparr>,
                 \<lparr>symbol = ''B'', date = 1, openp = 5, high = 6, low = 4, close = 5, volume = 20\<rparr>,
                 \<lparr>symbol = ''A'', date = 2, openp = 2, high = 3, low = 2, close = 3, volume = 10\<rparr>], extra = []\<rparr>)"
proof -
  let ?raw = "\<lparr>bars = [\<lparr>symbol = ''A'', date = 1, openp = 1, high = 2, low = 1, close = 2, volume = 10\<rparr>,
                 \<lparr>symbol = ''B'', date = 1, openp = 5, high = 6, low = 4, close = 5, volume = 20\<rparr>,
                 \<lparr>symbol = ''A'', date = 2, openp = 2, high = 3, low = 2, close = 3, volume = 10\<rparr>], extra = []\<rparr>"
  have len: "(0::nat) < length [?raw]" by simp
  have srt: "\<forall>s. sorted_wrt (<) (map date (filter (\<lambda>b. symbol b = s) (bars ([?raw] ! 0))))"
    by simp
  have grp: "concat (map (\<lambda>s. filter (\<lambda>b. symbol b = s) (bars ([?raw] ! 0)))
                         (unique (map symbol (bars ([?raw] ! 0)))))
             = [\<lparr>symbol = ''A'', date = 1, openp = 1, high = 2, low = 1, close = 2, volume = 10\<rparr>,
                 \<lparr>symbol = ''A'', date = 2, openp = 2, high = 3, low = 2, close = 3, volume = 10\<rparr>,
                 \<lparr>symbol = ''B'', date = 1, openp = 5, high = 6, low = 4, close = 5, volume = 20\<rparr>]"
    by code_simp
  note inst = indicators_only_add_columns [OF len]
  have p: "case process_multiple_symbols 0 [?raw] of
             (Inl e, h') \<Rightarrow> bars ([?raw] ! 0) = [] \<and> (\<forall>a<length [?raw]. h' ! a = [?raw] ! a)
           | (Inr out, h') \<Rightarrow>
               bars (h' ! out) =
                 concat (map (\<lambda>s. filter (\<lambda>b. symbol b = s) (bars ([?raw] ! 0)))
                             (unique (map symbol (bars ([?raw] ! 0)))))
             \<and> mset (bars (h' ! out)) = mset (bars ([?raw] ! 0))
             \<and> (\<forall>a<length [?raw]. h' ! a = [?raw] ! a)"
    using inst [THEN conjunct2, THEN mp, OF srt] .
  have a: "case process_multiple_symbols 0 [?raw] of
      (Inl e, h') \<Rightarrow> False
    | (Inr out, h') \<Rightarrow> bars (h' ! out) = [\<lparr>symbol = ''A'', date = 1, openp = 1, high = 2, low = 1, close = 2, volume = 10\<rparr>,
                 \<lparr>symbol = ''A'', date = 2, openp = 2, high = 3, low = 2, close = 3, volume = 10\<rparr>,
                 \<lparr>symbol = ''B'', date = 1, openp = 5, high = 6, low = 4, close = 5, volume = 20\<rparr>] \<and> h' ! 0 = ?raw"
    using p unfolding grp by (auto split: prod.splits sum.splits)
  have q: "case add_all_indicators 0 [?raw] of (out, h') \<Rightarrow> h' ! 0 = ?raw"
    using add_all_indicators_frame [where r = 0 and h = "[?raw]"]
    by (auto split: prod.splits)
  show ?thesis using a q by (intro conjI)
qed

section \<open>Verification: the three-row example\<close>

lemma map_of_with_indicators:
  "map_of (extra (with_indicators g)) ''t_score'' = Some (map CFloat (calculate_t_score g))"
  "map_of (extra (with_indicators g)) ''f_score'' = Some (map CInt (calculate_f_score g))"
  "map_of (extra (with_indicators g)) ''dma_10'' = Some (map CFloat (calculate_sma (map close (bars g)) 10))"
  "map_of (extra (with_indicators g)) ''dma_21'' = Some (map CFloat (calculate_sma (map close (bars g)) 21))"
  "map_of (extra (with_indicators g)) ''dma_50'' = Some (map CFloat (calculate_sma (map close (bars g)) 50))"
  "map_of (extra (with_indicators g)) ''dma_100'' = Some (map CFloat (calculate_sma (map close (bars g)) 100))"
  "map_of (extra (with_indicators g)) ''ema_10'' = Some (map CFloat (calculate_ema (map close (bars g)) 10))"
  "map_of (extra (with_indicators g)) ''ema_21'' = Some (map CFloat (calculate_ema (map close (bars g)) 21))"
  "map_of (extra (with_indicators g)) ''ema_50'' = Some (map CFloat (calculate_ema (map close (bars g)) 50))"
  "map_of (extra (with_indicators g)) ''ema_100'' = Some (map CFloat (calculate_ema (map close (bars g)) 100))"
  "map_of (extra (with_indicators g)) ''is_52_week_high'' = Some (map CBool (calculate_52_week_high g))"
  "map_of (extra (with_indicators g)) ''is_52_week_low'' = Some (map CBool (calculate_52_week_low g))"
  "map_of (extra (with_indicators g)) ''is_all_time_high'' = Some (map CBool (calculate_all_time_high g))"
  "map_of (extra (with_indicators g)) ''is_all_time_low'' = Some (map CBool (calculate_all_time_low g))"
  by (simp_all add: with_indicators_def indicator_columns_def set_column_def update_conv')

lemma three_rows_sma:
  "calculate_sma [10, 12, 11] 10 = [NaN, NaN, NaN]" "calculate_sma [10, 12, 11] 21 = [NaN, NaN, NaN]"
  "calculate_sma [10, 12, 11] 50 = [NaN, NaN, NaN]" "calculate_sma [10, 12, 11] 100 = [NaN, NaN, NaN]"
  by code_simp+

lemma three_rows_ema:
  "calculate_ema [10, 12, 11] 10 = [NaN, NaN, NaN]" "calculate_ema [10, 12, 11] 21 = [NaN, NaN, NaN]"
  "calculate_ema [10, 12, 11] 50 = [NaN, NaN, NaN]" "calculate_ema [10, 12, 11] 100 = [NaN, NaN, NaN]"
  by code_simp+

lemma three_rows_t_score:
  "map (\<lambda>q. fmul q (Fin 100))
     (map2 fdiv (map2 fsub (map Fin [10, 12, 11]) (rolling 14 14 minv [9, 11, 10]))
                (map (\<lambda>d. fadd d (Fin (1 / 10 ^ 10)))
                     (map2 fsub (rolling 14 14 maxv [10, 12, 11]) (rolling 14 14 minv [9, 11, 10]))))
   = [NaN, NaN, NaN]"
  by code_simp

lemma three_rows_extrema:
  "map2 fge (map Fin [10, 12, 11]) (expanding 1 maxv [10, 12, 11]) = [True, True, False]"
  "map2 fle (map Fin [9, 11, 10]) (expanding 1 minv [9, 11, 10]) = [True, False, False]"
  by code_simp+

text \<open>
  C9. For a frame of three rows in ascending date order with closes \<open>[10, 12, 11]\<close>,
  highs \<open>[10, 12, 11]\<close> and lows \<open>[9, 11, 10]\<close> (whatever the symbol, the opens, the
  volumes and the dates), \<open>add_all_indicators\<close> returns a frame in which the T-Score,
  every DMA and every EMA is NaN (undefined) at each of the three rows,
  \<open>is_all_time_high\<close> is \<open>[true, true, false]\<close> and \<open>is_all_time_low\<close> is
  \<open>[true, false, false]\<close>.
\<close>

theorem three_row_example:
  assumes "r < length h"
    and cl: "map close (bars (h ! r)) = [10, 12, 11]"
    and hi: "map high (bars (h ! r)) = [10, 12, 11]"
    and lo: "map low (bars (h ! r)) = [9, 11, 10]"
    and srt: "sorted_wrt (<) (map date (bars (h ! r)))"
  shows "case add_all_indicators r h of
           (out, h') \<Rightarrow>
             (\<forall>name \<in> set [''t_score'', ''dma_10'', ''dma_21'', ''dma_50'', ''dma_100'',
                            ''ema_10'', ''ema_21'', ''ema_50'', ''ema_100''].
                map_of (extra (h' ! out)) name = Some [CFloat NaN, CFloat NaN, CFloat NaN])
           \<and> map_of (extra (h' ! out)) ''is_all_time_high'' = Some [CBool True, CBool True, CBool False]
           \<and> map_of (extra (h' ! out)) ''is_all_time_low'' = Some [CBool True, CBool False, CBool False]"
proof -
  let ?g = "sort_by_date (h ! r)"
  have b: "bars ?g = bars (h ! r)"
    using srt by (simp add: bars_sort_by_date sort_key_id_if_sorted strict_sorted_imp_sorted)
  have t: "calculate_t_score ?g = [NaN, NaN, NaN]"
    unfolding calculate_t_score_def Let_def b cl hi lo by (rule three_rows_t_score)
  have ath: "calculate_all_time_high ?g = [True, True, False]"
    unfolding calculate_all_time_high_def Let_def b hi by (rule three_rows_extrema)
  have atl: "calculate_all_time_low ?g = [True, False, False]"
    unfolding calculate_all_time_low_def Let_def b lo by (rule three_rows_extrema)
  have out: "(h @ [h ! r, h ! r, with_indicators ?g]) ! (length h + 2) = with_indicators ?g"
    by (simp add: nth_append)
  show ?thesis
    unfolding add_all_indicators_eq prod.case out
    by (simp add: map_of_with_indicators b cl t ath atl three_rows_sma three_rows_ema)
qed

theorem three_row_example_witness:
  "case add_all_indicators 0
          [\<lparr>bars = [\<lparr>symbol = ''X'', date = 1, openp = 10, high = 10, low = 9, close = 10, volume = 5\<rparr>,
                    \<lparr>symbol = ''X'', date = 2, openp = 10, high = 12, low = 11, close = 12, volume = 5\<rparr>,
                    \<lparr>symbol = ''X'', date = 3, openp = 12, high = 11, low = 10, close = 11, volume = 5\<rparr>],
            extra = []\<rparr>] of
     (out, h') \<Rightarrow>
        map_of (extra (h' ! out)) ''dma_10'' = Some [CFloat NaN, CFloat NaN, CFloat NaN]
      \<and> map_of (extra (h' ! out)) ''t_score'' = Some [CFloat NaN, CFloat NaN, CFloat NaN]
      \<and> map_of (extra (h' ! out)) ''is_all_time_high'' = Some [CBool True, CBool True, CBool False]
      \<and> map_of (extra (h' ! out)) ''is_all_time_low'' = Some [CBool True, CBool False, CBool False]"
proof -
  let ?df = "\<lparr>bars = [\<lparr>symbol = ''X'', date = 1, openp = 10, high = 10, low = 9, close = 10, volume = 5\<rparr>,
                    \<lparr>symbol = ''X'', date = 2, openp = 10, high = 12, low = 11, close = 12, volume = 5\<rparr>,
                    \<lparr>symbol = ''X'', date = 3, openp = 12, high = 11, low = 10, close = 11, volume = 5\<rparr>],
            extra = []\<rparr>"
  have h: "(0::nat) < length [?df]" "map close (bars ([?df] ! 0)) = [10, 12, 11]"
    "map high (bars ([?df] ! 0)) = [10, 12, 11]" "map low (bars ([?df] ! 0)) = [9, 11, 10]"
    "sorted_wrt (<) (map date (bars ([?df] ! 0)))"
    by simp_all
  show ?thesis
    using three_row_example [OF h] by (auto split: prod.splits)
qed

section \<open>Verification: failure of the store\<close>

lemma batches_nonempty: "0 < n \<Longrightarrow> xs \<noteq> [] \<Longrightarrow> batches n xs = take n xs # batches n (drop n xs)"
  by (subst batches.simps) simp

lemma length_to_dict_records [simp]: "length (to_dict_records df) = length (bars df)"
  by (simp add: to_dict_records_def)

lemma store_data_first_statement_fails:
  assumes "bars df \<noteq> []" and "execute_fails flts 0"
  shows "store_data flts df d = (Inl OperationalError, d)"
proof -
  have "to_dict_records df \<noteq> []"
    using assms(1) by (metis length_to_dict_records length_0_conv)
  then have "batches 1000 (to_dict_records df)
             = take 1000 (to_dict_records df) # batches 1000 (drop 1000 (to_dict_records df))"
    by (intro batches_nonempty) simp_all
  then show ?thesis
    using assms(2)
    by (simp add: store_data_def get_session_def session_close_def session_rollback_def)
qed

lemma process_and_store_stocks_on_failure:
  assumes "bars (fetch_multiple_stocks tv symbols) \<noteq> []"
    and "process_multiple_symbols 0 [fetch_multiple_stocks tv symbols] = (Inr out, h)"
    and "fst (store_data flts (h ! out) d) = Inl e"
  shows "process_and_store_stocks tv flts symbols d = (Inr False, snd (store_data flts (h ! out) d))"
proof (cases "store_data flts (h ! out) d")
  case (Pair r d')
  then have "r = Inl e" using assms(3) by simp
  then show ?thesis
    using assms(1,2) Pair by (simp add: process_and_store_stocks_def Let_def)
qed

lemma run_with_storage_failure:
  assumes "bars (fetch_multiple_stocks tv symbols) \<noteq> []"
    and "process_multiple_symbols 0 [fetch_multiple_stocks tv symbols] = (Inr out, h)"
    and "fst (batches_loop (execute_fails flts) 0 (batches 1000 (to_dict_records (h ! out)))
                (get_session d)) \<noteq> None
         \<or> commit_fails flts"
  shows "(\<exists>e. fst (store_data flts (h ! out) d) = Inl e)
       \<and> table (snd (store_data flts (h ! out) d)) = table d
       \<and> process_and_store_stocks tv flts symbols d
           = (Inr False, snd (store_data flts (h ! out) d))"
proof -
  from store_data_raises(1) [OF assms(3)] obtain e where
    e: "fst (store_data flts (h ! out) d) = Inl e" ..
  have t: "table (snd (store_data flts (h ! out) d)) = table d"
    by (rule store_data_raises(2) [OF assms(3)])
  have p: "process_and_store_stocks tv flts symbols d
           = (Inr False, snd (store_data flts (h ! out) d))"
    by (rule process_and_store_stocks_on_failure [OF assms(1,2) e])
  show ?thesis using e t p by blast
qed

lemma example_fetch:
  "fetch_multiple_stocks
     (\<lambda>s. Inr (Some [\<lparr>symbol = ''NSE:X'', date = 1, openp = 10, high = 11, low = 9, close = 10,
                       volume = 5\<rparr>])) [''X'']
   = \<lparr>bars = [\<lparr>symbol = ''X'', date = 1, openp = 10, high = 11, low = 9, close = 10, volume = 5\<rparr>],
      extra = []\<rparr>"
  by code_simp

lemma example_run:
  fixes tv :: "string \<Rightarrow> error + bar list option"
  defines "tv \<equiv> (\<lambda>s. Inr (Some [\<lparr>symbol = ''NSE:X'', date = 1, openp = 10, high = 11, low = 9, close = 10,
                       volume = 5\<rparr>]))"
  shows "bars (fetch_multiple_stocks tv [''X'']) \<noteq> []"
    and "\<exists>out h. process_multiple_symbols 0 [fetch_multiple_stocks tv [''X'']] = (Inr out, h)
                \<and> bars (h ! out)
                    = [\<lparr>symbol = ''X'', date = 1, openp = 10, high = 11, low = 9, close = 10,
                         volume = 5\<rparr>]"
proof -
  let ?raw = "\<lparr>bars = [\<lparr>symbol = ''X'', date = 1, openp = 10, high = 11, low = 9, close = 10,
                         volume = 5\<rparr>], extra = []\<rparr>"
  have raw: "fetch_multiple_stocks tv [''X''] = ?raw"
    unfolding tv_def by (rule example_fetch)
  show ne: "bars (fetch_multiple_stocks tv [''X'']) \<noteq> []"
    unfolding raw by simp
  have ne0: "bars ([?raw] ! 0) \<noteq> []" by simp
  from process_multiple_symbols_result [OF _ ne0] obtain out ext where
    res: "process_multiple_symbols 0 [?raw] = (Inr out, [?raw] @ ext)"
    by auto
  have "case process_multiple_symbols 0 [?raw] of
           (Inl e, h') \<Rightarrow> bars ([?raw] ! 0) = [] \<and> (\<forall>a<length [?raw]. h' ! a = [?raw] ! a)
         | (Inr out, h') \<Rightarrow>
             bars (h' ! out) =
               concat (map (\<lambda>s. sort_key date (filter (\<lambda>b. symbol b = s) (bars ([?raw] ! 0))))
                           (unique (map symbol (bars ([?raw] ! 0)))))
           \<and> (\<forall>a<length [?raw]. h' ! a = [?raw] ! a)"
    by (rule process_multiple_symbols_frame) simp
  then have "bars (([?raw] @ ext) ! out)
             = [\<lparr>symbol = ''X'', date = 1, openp = 10, high = 11, low = 9, close = 10, volume = 5\<rparr>]"
    unfolding res by (simp add: unique_def)
  then show "\<exists>out h. process_multiple_symbols 0 [fetch_multiple_stocks tv [''X'']] = (Inr out, h)
                \<and> bars (h ! out)
                    = [\<lparr>symbol = ''X'', date = 1, openp = 10, high = 11, low = 9, close = 10,
                         volume = 5\<rparr>]"
    unfolding raw using res by blast
qed

text \<open>What one statement writes for a frame of one row.\<close>

lemma record_not_null:
  "r \<in> set (to_dict_records f) \<Longrightarrow> \<not> (\<exists>c \<in> set not_null_columns. proposed_row r n c = None)"
  by (auto simp: to_dict_records_def Let_def not_null_columns_def proposed_row_def
        stock_data_columns_def)

lemma key_of_record:
  "i < length (bars f) \<Longrightarrow>
   key_of (to_dict_records f ! i)
     = (Some (CStr (symbol (bars f ! i))), Some (CDate (date (bars f ! i))))"
  by (simp add: to_dict_records_def Let_def key_of_def proposed_row_def stock_data_columns_def)

lemma single_row_written:
  assumes "bars f = [b]"
  shows "batches_loop (\<lambda>k. False) 0 (batches 1000 (to_dict_records f)) s
           = (None, s\<lparr>working := upsert_row (to_dict_records f ! 0) (working s)\<rparr>)"
    and "table (upsert_row (to_dict_records f ! 0) w) (Some (CStr (symbol b)), Some (CDate (date b)))
           \<noteq> None"
proof -
  let ?r = "to_dict_records f ! 0"
  have len: "length (to_dict_records f) = 1" using assms by simp
  then have one: "to_dict_records f = [?r]"
    by (cases "to_dict_records f") auto
  have mem: "?r \<in> set (to_dict_records f)"
    using one by (metis list.set_intros(1))
  have nn: "\<not> (\<exists>c \<in> set not_null_columns. proposed_row ?r (next_id (working s)) c = None)"
    by (rule record_not_null [OF mem])
  have ex: "execute_upsert [?r] (working s) = Inr (upsert_row ?r (working s))"
    unfolding execute_upsert_def using nn by simp
  have bt: "batches 1000 [?r] = [[?r]]"
    by (simp add: batches_nonempty batches.simps [of 1000 "[]"])
  show "batches_loop (\<lambda>k. False) 0 (batches 1000 (to_dict_records f)) s
           = (None, s\<lparr>working := upsert_row ?r (working s)\<rparr>)"
    using ex by (subst one) (simp add: bt)
  have k: "key_of ?r = (Some (CStr (symbol b)), Some (CDate (date b)))"
    using key_of_record [of 0 f] assms by simp
  show "table (upsert_row ?r w) (Some (CStr (symbol b)), Some (CDate (date b))) \<noteq> None"
    by (simp add: table_upsert_row k)
qed




section \<open>Verification: isolation of the symbols\<close>

lemma length_expanding [simp]: "length (expanding m agg xs) = length xs"
  by (simp add: expanding_def)

lemma length_calculate_sma [simp]: "length (calculate_sma x p) = length x"
  by (simp add: calculate_sma_def)

lemma length_flags [simp]:
  "length (calculate_52_week_high f) = length (bars f)"
  "length (calculate_52_week_low f) = length (bars f)"
  "length (calculate_all_time_high f) = length (bars f)"
  "length (calculate_all_time_low f) = length (bars f)"
  by (simp_all add: calculate_52_week_high_def calculate_52_week_low_def
        calculate_all_time_high_def calculate_all_time_low_def Let_def)

lemma length_indicator_columns:
  "(n, c) \<in> set (indicator_columns g) \<Longrightarrow> length c = length (bars g)"
  by (auto simp: indicator_columns_def)

lemma names_indicator_columns: "map fst (indicator_columns g) = indicator_names"
  by (simp add: indicator_columns_def indicator_names_def)

lemma distinct_indicator_names: "distinct indicator_names"
  by (simp add: indicator_names_def)

lemma extra_with_indicators_raw: "extra g = [] \<Longrightarrow> extra (with_indicators g) = indicator_columns g"
  by (simp add: with_indicators_def indicator_columns_def set_column_def)

lemma extra_take_rows_raw: "extra f = [] \<Longrightarrow> extra (take_rows idx f) = []"
  by (simp add: take_rows_def)

lemma select_rows_raw:
  "extra f = [] \<Longrightarrow> select_rows s f = \<lparr>bars = filter (\<lambda>b. symbol b = s) (bars f), extra = []\<rparr>"
  using bars_select_rows [of s f] by (simp add: select_rows_def Let_def extra_take_rows_raw)

lemma extra_sort_by_date_raw: "extra f = [] \<Longrightarrow> extra (sort_by_date f) = []"
  by (simp add: sort_by_date_def extra_take_rows_raw)

lemma extra_processed_frame_raw:
  "extra f = [] \<Longrightarrow>
   extra (processed_frame s f) = indicator_columns (sort_by_date (sort_by_date (select_rows s f)))"
  by (simp add: processed_frame_def extra_with_indicators_raw extra_sort_by_date_raw select_rows_raw)

lemma unique_from_append:
  "unique_from seen (xs @ ys) = unique_from seen xs @ unique_from (xs @ seen) ys"
proof (induction xs arbitrary: seen)
  case Nil
  then show ?case by simp
next
  case (Cons x xs)
  show ?case
  proof (cases "x \<in> set seen")
    case True
    have "unique_from (xs @ seen) ys = unique_from ((x # xs) @ seen) ys"
      by (rule unique_from_set_cong) (use True in auto)
    then show ?thesis using True Cons.IH [of seen] by simp
  next
    case False
    have "unique_from (xs @ x # seen) ys = unique_from ((x # xs) @ seen) ys"
      by (rule unique_from_set_cong) auto
    then show ?thesis using False Cons.IH [of "x # seen"] by simp
  qed
qed

lemma unique_from_distinct:
  "distinct xs \<Longrightarrow> set xs \<inter> set seen = {} \<Longrightarrow> unique_from seen xs = xs"
  by (induction xs arbitrary: seen) auto

lemma unique_from_seen: "set ys \<subseteq> set seen \<Longrightarrow> unique_from seen ys = []"
  by (induction ys arbitrary: seen) auto

lemma unique_same_names:
  assumes "fs \<noteq> []" and "\<forall>f \<in> set fs. map fst (extra f) = ns" and "distinct ns"
  shows "unique (concat (map (\<lambda>f. map fst (extra f)) fs)) = ns"
proof -
  obtain f fs' where fs: "fs = f # fs'" using assms(1) by (cases fs) auto
  have rest: "set (concat (map (\<lambda>f. map fst (extra f)) fs')) \<subseteq> set ns"
    using assms(2) fs by auto
  have "unique (concat (map (\<lambda>f. map fst (extra f)) fs))
        = unique_from [] (ns @ concat (map (\<lambda>f. map fst (extra f)) fs'))"
    using assms(2) fs by (simp add: unique_def)
  also have "\<dots> = unique_from [] ns @ unique_from (ns @ []) (concat (map (\<lambda>f. map fst (extra f)) fs'))"
    by (rule unique_from_append)
  also have "\<dots> = ns"
    using assms(3) rest by (simp add: unique_from_distinct unique_from_seen)
  finally show ?thesis .
qed


lemma to_dict_records_append:
  assumes "\<forall>n \<in> set ns. length (c1 n) = length bs1"
  shows "to_dict_records \<lparr>bars = bs1 @ bs2, extra = map (\<lambda>n. (n, c1 n @ c2 n)) ns\<rparr>
         = to_dict_records \<lparr>bars = bs1, extra = map (\<lambda>n. (n, c1 n)) ns\<rparr>
           @ to_dict_records \<lparr>bars = bs2, extra = map (\<lambda>n. (n, c2 n)) ns\<rparr>"
proof -
  define row where "row = (\<lambda>(bs :: bar list) (cols :: string \<Rightarrow> cell list) i.
       [(''date'', CDate (date (bs ! i))), (''symbol'', CStr (symbol (bs ! i))),
        (''open'', CFloat (Fin (openp (bs ! i)))), (''high'', CFloat (Fin (high (bs ! i)))),
        (''low'', CFloat (Fin (low (bs ! i)))), (''close'', CFloat (Fin (close (bs ! i)))),
        (''volume'', CFloat (Fin (volume (bs ! i))))]
       @ map (\<lambda>n. (n, cols n ! i)) ns)"
  have tdr: "to_dict_records \<lparr>bars = bs, extra = map (\<lambda>n. (n, cols n)) ns\<rparr>
              = map (row bs cols) [0..<length bs]" for bs cols
    by (simp add: to_dict_records_def row_def o_def Let_def)
  have s1: "[0..<length bs1 + length bs2] = [0..<length bs1] @ [length bs1..<length bs1 + length bs2]"
    by (rule upt_add_eq_append) simp
  have s2: "[length bs1..<length bs1 + length bs2] = map (\<lambda>i. i + length bs1) [0..<length bs2]"
    using map_add_upt [of "length bs1" "length bs2"] by (simp add: add.commute)
  have left: "map (row (bs1 @ bs2) (\<lambda>n. c1 n @ c2 n)) [0..<length bs1] = map (row bs1 c1) [0..<length bs1]"
  proof (rule map_cong)
    fix i assume "i \<in> set [0..<length bs1]"
    then have i: "i < length bs1" by simp
    then have "\<forall>n \<in> set ns. (c1 n @ c2 n) ! i = c1 n ! i"
      using assms by (simp add: nth_append)
    then have "map (\<lambda>n. (n, (c1 n @ c2 n) ! i)) ns = map (\<lambda>n. (n, c1 n ! i)) ns"
      by simp
    moreover have "(bs1 @ bs2) ! i = bs1 ! i" using i by (simp add: nth_append)
    ultimately show "row (bs1 @ bs2) (\<lambda>n. c1 n @ c2 n) i = row bs1 c1 i"
      unfolding row_def by (simp only:)
  qed simp
  have right: "map (row (bs1 @ bs2) (\<lambda>n. c1 n @ c2 n)) (map (\<lambda>i. i + length bs1) [0..<length bs2])
               = map (row bs2 c2) [0..<length bs2]"
    unfolding map_map
  proof (rule map_cong)
    fix i assume "i \<in> set [0..<length bs2]"
    have "\<forall>n \<in> set ns. (c1 n @ c2 n) ! (i + length bs1) = c2 n ! i"
      using assms by (simp add: nth_append)
    then have "map (\<lambda>n. (n, (c1 n @ c2 n) ! (i + length bs1))) ns = map (\<lambda>n. (n, c2 n ! i)) ns"
      by simp
    moreover have "(bs1 @ bs2) ! (i + length bs1) = bs2 ! i" by (simp add: nth_append)
    ultimately show "(row (bs1 @ bs2) (\<lambda>n. c1 n @ c2 n) \<circ> (\<lambda>i. i + length bs1)) i = row bs2 c2 i"
      unfolding row_def o_apply by (simp only:)
  qed simp
  have "to_dict_records \<lparr>bars = bs1 @ bs2, extra = map (\<lambda>n. (n, c1 n @ c2 n)) ns\<rparr>
        = map (row (bs1 @ bs2) (\<lambda>n. c1 n @ c2 n)) [0..<length bs1 + length bs2]"
    unfolding tdr by simp
  also have "\<dots> = map (row bs1 c1) [0..<length bs1] @ map (row bs2 c2) [0..<length bs2]"
    unfolding s1 map_append left s2 right ..
  finally show ?thesis unfolding tdr .
qed

lemma frame_as_columns:
  assumes "distinct (map fst (extra f))"
  shows "f = \<lparr>bars = bars f, extra = map (\<lambda>n. (n, column_or_nan n f)) (map fst (extra f))\<rparr>"
proof -
  have "map (\<lambda>n. (n, column_or_nan n f)) (map fst (extra f)) = extra f"
  proof -
    have "map (\<lambda>n. (n, column_or_nan n f)) (map fst (extra f))
          = map (\<lambda>p. (fst p, column_or_nan (fst p) f)) (extra f)"
      by (simp add: o_def)
    also have "\<dots> = map (\<lambda>p. p) (extra f)"
    proof (rule map_cong)
      fix p assume "p \<in> set (extra f)"
      then have "map_of (extra f) (fst p) = Some (snd p)"
        using assms by (metis map_of_is_SomeI prod.collapse)
      then show "(fst p, column_or_nan (fst p) f) = p"
        by (cases p) (simp add: column_or_nan_def)
    qed simp
    finally show ?thesis by simp
  qed
  then show ?thesis by simp
qed

lemma concat_frames_columns:
  assumes "fs \<noteq> []" and "\<forall>f \<in> set fs. map fst (extra f) = ns" and "distinct ns"
  shows "concat_frames fs =
           \<lparr>bars = concat (map bars fs),
            extra = map (\<lambda>n. (n, concat (map (column_or_nan n) fs))) ns\<rparr>"
  by (simp add: concat_frames_def unique_same_names [OF assms])

lemma to_dict_records_concat_columns:
  assumes "\<forall>f \<in> set fs. \<forall>n \<in> set ns. length (column_or_nan n f) = length (bars f)"
  shows "to_dict_records \<lparr>bars = concat (map bars fs),
                          extra = map (\<lambda>n. (n, concat (map (column_or_nan n) fs))) ns\<rparr>
         = concat (map (\<lambda>f. to_dict_records
                                \<lparr>bars = bars f, extra = map (\<lambda>n. (n, column_or_nan n f)) ns\<rparr>) fs)"
  using assms
proof (induction fs)
  case Nil
  then show ?case by (simp add: to_dict_records_def)
next
  case (Cons f fs)
  have len: "\<forall>n \<in> set ns. length (column_or_nan n f) = length (bars f)"
    using Cons.prems by simp
  have "to_dict_records \<lparr>bars = concat (map bars (f # fs)),
                          extra = map (\<lambda>n. (n, concat (map (column_or_nan n) (f # fs)))) ns\<rparr>
        = to_dict_records \<lparr>bars = bars f @ concat (map bars fs),
             extra = map (\<lambda>n. (n, column_or_nan n f @ concat (map (column_or_nan n) fs))) ns\<rparr>"
    by simp
  also have "\<dots> = to_dict_records \<lparr>bars = bars f, extra = map (\<lambda>n. (n, column_or_nan n f)) ns\<rparr>
        @ to_dict_records \<lparr>bars = concat (map bars fs),
             extra = map (\<lambda>n. (n, concat (map (column_or_nan n) fs))) ns\<rparr>"
    by (rule to_dict_records_append [OF len])
  also have "\<dots> = to_dict_records \<lparr>bars = bars f, extra = map (\<lambda>n. (n, column_or_nan n f)) ns\<rparr>
        @ concat (map (\<lambda>f. to_dict_records
                                \<lparr>bars = bars f, extra = map (\<lambda>n. (n, column_or_nan n f)) ns\<rparr>) fs)"
    using Cons by simp
  finally show ?case by simp
qed

lemma to_dict_records_concat_frames:
  assumes "fs \<noteq> []" and "\<forall>f \<in> set fs. map fst (extra f) = ns" and "distinct ns"
    and "\<forall>f \<in> set fs. \<forall>(n, c) \<in> set (extra f). length c = length (bars f)"
  shows "to_dict_records (concat_frames fs) = concat (map to_dict_records fs)"
proof -
  have len: "\<forall>f \<in> set fs. \<forall>n \<in> set ns. length (column_or_nan n f) = length (bars f)"
  proof (intro ballI)
    fix f n assume f: "f \<in> set fs" and "n \<in> set ns"
    show "length (column_or_nan n f) = length (bars f)"
    proof (cases "map_of (extra f) n")
      case None
      then show ?thesis by (simp add: column_or_nan_def)
    next
      case (Some c)
      then have "(n, c) \<in> set (extra f)" by (rule map_of_SomeD)
      then show ?thesis using assms(4) f Some by (auto simp: column_or_nan_def)
    qed
  qed
  have each: "\<And>f. f \<in> set fs \<Longrightarrow>
      to_dict_records \<lparr>bars = bars f, extra = map (\<lambda>n. (n, column_or_nan n f)) ns\<rparr> = to_dict_records f"
  proof -
    fix f assume f: "f \<in> set fs"
    then have "distinct (map fst (extra f))" "map fst (extra f) = ns"
      using assms(2,3) by simp_all
    then show "to_dict_records \<lparr>bars = bars f, extra = map (\<lambda>n. (n, column_or_nan n f)) ns\<rparr>
               = to_dict_records f"
      using frame_as_columns [of f] by simp
  qed
  have "to_dict_records (concat_frames fs)
        = concat (map (\<lambda>f. to_dict_records
                                \<lparr>bars = bars f, extra = map (\<lambda>n. (n, column_or_nan n f)) ns\<rparr>) fs)"
    unfolding concat_frames_columns [OF assms(1,2,3)] by (rule to_dict_records_concat_columns [OF len])
  also have "\<dots> = concat (map to_dict_records fs)"
    by (rule arg_cong [where f = concat]) (rule map_cong, simp, rule each)
  finally show ?thesis .
qed


lemma symbol_of_record:
  "rec \<in> set (to_dict_records f) \<Longrightarrow> \<exists>b \<in> set (bars f). map_of rec ''symbol'' = Some (CStr (symbol b))"
  by (auto simp: to_dict_records_def Let_def)

lemma filter_records_one_symbol:
  assumes "\<forall>b \<in> set (bars f). symbol b = s"
  shows "filter (\<lambda>rec. map_of rec ''symbol'' = Some (CStr B)) (to_dict_records f)
         = (if s = B then to_dict_records f else [])"
proof -
  have "\<forall>rec \<in> set (to_dict_records f). map_of rec ''symbol'' = Some (CStr s)"
    using assms symbol_of_record by fastforce
  then show ?thesis
    by (auto simp: filter_empty_conv intro: filter_True)
qed

lemma concat_pick:
  "distinct ss \<Longrightarrow> concat (map (\<lambda>s. if s = B then g s else []) ss) = (if B \<in> set ss then g B else [])"
  by (induction ss) auto

lemma symbols_of_processed_frame: "\<forall>b \<in> set (bars (processed_frame s f)). symbol b = s"
  by (simp add: bars_processed_frame)

lemma processed_frame_columns:
  assumes "extra f = []"
  shows "map fst (extra (processed_frame s f)) = indicator_names"
    and "\<forall>(n, c) \<in> set (extra (processed_frame s f)). length c = length (bars (processed_frame s f))"
proof -
  let ?g = "sort_by_date (sort_by_date (select_rows s f))"
  have e: "extra (processed_frame s f) = indicator_columns ?g"
    by (rule extra_processed_frame_raw [OF assms])
  show "map fst (extra (processed_frame s f)) = indicator_names"
    unfolding e by (rule names_indicator_columns)
  have "bars (processed_frame s f) = bars ?g"
    by (simp add: processed_frame_def)
  then show "\<forall>(n, c) \<in> set (extra (processed_frame s f)). length c = length (bars (processed_frame s f))"
    unfolding e using length_indicator_columns [of _ _ ?g] by auto
qed

lemma rows_of_symbol:
  assumes "r < length h" and "extra (h ! r) = []"
  shows "(case process_multiple_symbols r h of
            (Inl e, h') \<Rightarrow> []
          | (Inr out, h') \<Rightarrow>
              filter (\<lambda>rec. map_of rec ''symbol'' = Some (CStr B)) (to_dict_records (h' ! out)))
         = (if filter (\<lambda>b. symbol b = B) (bars (h ! r)) = [] then []
            else to_dict_records
                   (with_indicators (sort_by_date (sort_by_date
                      \<lparr>bars = filter (\<lambda>b. symbol b = B) (bars (h ! r)), extra = []\<rparr>))))"
proof (cases "bars (h ! r) = []")
  case True
  then show ?thesis by (simp add: process_multiple_symbols_empty)
next
  case False
  let ?ss = "unique (map symbol (bars (h ! r)))"
  let ?fs = "map (\<lambda>s. processed_frame s (h ! r)) ?ss"
  from process_multiple_symbols_result [OF assms(1) False] obtain out ext where
    res: "process_multiple_symbols r h = (Inr out, h @ ext)" "(h @ ext) ! out = concat_frames ?fs"
    by blast
  have ne: "?fs \<noteq> []" using False by simp
  have names: "\<forall>f \<in> set ?fs. map fst (extra f) = indicator_names"
    using processed_frame_columns(1) [OF assms(2)] by auto
  have lens: "\<forall>f \<in> set ?fs. \<forall>(n, c) \<in> set (extra f). length c = length (bars f)"
    using processed_frame_columns(2) [OF assms(2)] by auto
  have tdr: "to_dict_records (concat_frames ?fs) = concat (map to_dict_records ?fs)"
    by (rule to_dict_records_concat_frames [OF ne names distinct_indicator_names lens])
  have "filter (\<lambda>rec. map_of rec ''symbol'' = Some (CStr B)) (to_dict_records (concat_frames ?fs))
        = concat (map (\<lambda>s. filter (\<lambda>rec. map_of rec ''symbol'' = Some (CStr B))
                                (to_dict_records (processed_frame s (h ! r)))) ?ss)"
    unfolding tdr by (simp add: filter_concat o_def)
  also have "\<dots> = concat (map (\<lambda>s. if s = B then to_dict_records (processed_frame s (h ! r)) else []) ?ss)"
    by (rule arg_cong [where f = concat], rule map_cong, simp)
       (rule filter_records_one_symbol [OF symbols_of_processed_frame])
  also have "\<dots> = (if B \<in> set ?ss then to_dict_records (processed_frame B (h ! r)) else [])"
    by (rule concat_pick) simp
  finally have f: "filter (\<lambda>rec. map_of rec ''symbol'' = Some (CStr B)) (to_dict_records (concat_frames ?fs))
        = (if B \<in> set ?ss then to_dict_records (processed_frame B (h ! r)) else [])" .
  have mem: "B \<in> set ?ss \<longleftrightarrow> filter (\<lambda>b. symbol b = B) (bars (h ! r)) \<noteq> []"
    by (auto simp: filter_empty_conv)
  have pf: "processed_frame B (h ! r)
            = with_indicators (sort_by_date (sort_by_date
                \<lparr>bars = filter (\<lambda>b. symbol b = B) (bars (h ! r)), extra = []\<rparr>))"
    by (simp add: processed_frame_def select_rows_raw [OF assms(2)])
  show ?thesis
    unfolding res(1) prod.case sum.case res(2) f mem pf by simp
qed

text \<open>
  C8. Take two runs of \<open>process_multiple_symbols\<close> on bar collections (frames of the
  seven bar columns) in which the rows of symbol \<open>B\<close> are the same, whatever the rows of
  the other symbols are: changed, corrupted or left out. The rows of \<open>B\<close> in the two
  results, with all their indicator values, are the same. A run on an empty collection
  raises and yields no rows.
\<close>

theorem per_symbol_isolation:
  assumes "r1 < length h1" and "r2 < length h2"
    and "extra (h1 ! r1) = []" and "extra (h2 ! r2) = []"
    and "filter (\<lambda>b. symbol b = B) (bars (h1 ! r1)) = filter (\<lambda>b. symbol b = B) (bars (h2 ! r2))"
  shows "(case process_multiple_symbols r1 h1 of
            (Inl e, h') \<Rightarrow> []
          | (Inr out, h') \<Rightarrow>
              filter (\<lambda>rec. map_of rec ''symbol'' = Some (CStr B)) (to_dict_records (h' ! out)))
       = (case process_multiple_symbols r2 h2 of
            (Inl e, h') \<Rightarrow> []
          | (Inr out, h') \<Rightarrow>
              filter (\<lambda>rec. map_of rec ''symbol'' = Some (CStr B)) (to_dict_records (h' ! out)))"
  unfolding rows_of_symbol [OF assms(1,3)] rows_of_symbol [OF assms(2,4)] assms(5) ..

theorem per_symbol_isolation_witness:
  "(case process_multiple_symbols 0
          [\<lparr>bars = [\<lparr>symbol = ''A'', date = 1, openp = 1, high = 2, low = 1, close = 2, volume = 10\<rparr>,
                  \<lparr>symbol = ''B'', date = 1, openp = 5, high = 6, low = 4, close = 5, volume = 20\<rparr>,
                  \<lparr>symbol = ''A'', date = 2, openp = 2, high = 3, low = 2, close = 3, volume = 10\<rparr>], extra = []\<rparr>] of
      (Inl e, h') \<Rightarrow> []
    | (Inr out, h') \<Rightarrow>
        filter (\<lambda>rec. map_of rec ''symbol'' = Some (CStr ''B'')) (to_dict_records (h' ! out)))
   = (case process_multiple_symbols 0
          [\<lparr>bars = [\<lparr>symbol = ''B'', date = 1, openp = 5, high = 6, low = 4, close = 5, volume = 20\<rparr>], extra = []\<rparr>] of
      (Inl e, h') \<Rightarrow> []
    | (Inr out, h') \<Rightarrow>
        filter (\<lambda>rec. map_of rec ''symbol'' = Some (CStr ''B'')) (to_dict_records (h' ! out)))
   \<and> (case process_multiple_symbols 0
          [\<lparr>bars = [\<lparr>symbol = ''B'', date = 1, openp = 5, high = 6, low = 4, close = 5, volume = 20\<rparr>], extra = []\<rparr>] of
      (Inl e, h') \<Rightarrow> []
    | (Inr out, h') \<Rightarrow>
        filter (\<lambda>rec. map_of rec ''symbol'' = Some (CStr ''B'')) (to_dict_records (h' ! out))) \<noteq> []"
proof -
  let ?raw1 = "\<lparr>bars = [\<lparr>symbol = ''A'', date = 1, openp = 1, high = 2, low = 1, close = 2, volume = 10\<rparr>,
                  \<lparr>symbol = ''B'', date = 1, openp = 5, high = 6, low = 4, close = 5, volume = 20\<rparr>,
                  \<lparr>symbol = ''A'', date = 2, openp = 2, high = 3, low = 2, close = 3, volume = 10\<rparr>], extra = []\<rparr>"
  let ?raw2 = "\<lparr>bars = [\<lparr>symbol = ''B'', date = 1, openp = 5, high = 6, low = 4, close = 5, volume = 20\<rparr>], extra = []\<rparr>"
  have l1: "(0::nat) < length [?raw1]" and l2: "(0::nat) < length [?raw2]" by simp_all
  have e1: "extra ([?raw1] ! 0) = []" and e2: "extra ([?raw2] ! 0) = []" by simp_all
  have same: "filter (\<lambda>b. symbol b = ''B'') (bars ([?raw1] ! 0))
              = filter (\<lambda>b. symbol b = ''B'') (bars ([?raw2] ! 0))"
    by simp
  have "length (case process_multiple_symbols 0 [?raw2] of
      (Inl e, h') \<Rightarrow> []
    | (Inr out, h') \<Rightarrow>
        filter (\<lambda>rec. map_of rec ''symbol'' = Some (CStr ''B'')) (to_dict_records (h' ! out))) = 1"
    unfolding rows_of_symbol [OF l2 e2] by (simp add: bars_sort_by_date)
  then have ne: "(case process_multiple_symbols 0 [?raw2] of
      (Inl e, h') \<Rightarrow> []
    | (Inr out, h') \<Rightarrow>
        filter (\<lambda>rec. map_of rec ''symbol'' = Some (CStr ''B'')) (to_dict_records (h' ! out))) \<noteq> []"
    by (metis length_0_conv zero_neq_one)
  show ?thesis
    using per_symbol_isolation [OF l1 l2 e1 e2 same] ne by (intro conjI)
qed

end
